theory Spec2Isabelle
  imports Complex_Main "HOL-Library.AList" "HOL-Library.Sublist" "HOL-Library.List_Lexorder"
begin

section \<open>Python values\<close>

text \<open>
  A Python \<open>str\<close> is a sequence of Unicode code points, so it is modelled as a list of
  naturals: \<open>length\<close> counts code points, as \<open>len\<close> does, and the order on lists is
  the lexicographic order Python compares strings with. ASCII literals of the source are
  written through \<open>cps\<close>; the Korean literals are written as their code points.
\<close>

type_synonym pystr = "nat list"

definition cps :: "string \<Rightarrow> pystr" where
  "cps s = map of_char s"

text \<open>
  A Python \<open>float\<close> is a binary64 number: a finite value, which is a rational, one of
  the two zeros, an infinity, or a NaN. \<open>Finite 0\<close> is \<open>0.0\<close> and \<open>NegZero\<close> is
  \<open>-0.0\<close>; \<open>json.loads\<close> produces every one of these (\<open>1e999\<close>, \<open>-0.0\<close>,
  \<open>NaN\<close>). The payload of a NaN is not modelled.
\<close>

datatype pyfloat = Finite rat | NegZero | PosInf | NegInf | NaN

text \<open>
  The values that flow through the pipeline are what \<open>json.loads\<close> and the collectors
  produce: \<open>None\<close>, booleans, integers, floats, strings, lists and dictionaries. A
  dictionary keeps its insertion order, so it is an association list; \<open>d[k] = v\<close> is
  \<open>AList.update\<close> (an existing key keeps its place, a new key goes last).
\<close>

datatype pyval =
    PNone
  | PBool bool
  | PInt int
  | PFloat pyfloat
  | PStr pystr
  | PList "pyval list"
  | PDict "(pystr \<times> pyval) list"

type_synonym pydict = "(pystr \<times> pyval) list"

datatype exn =
    TypeError | AttributeError | KeyError | ValueError | ZeroDivisionError | OverflowError
  | Failure nat

text \<open>Truth value testing, as \<open>if v:\<close> and \<open>not v\<close> do it.\<close>

fun truthy :: "pyval \<Rightarrow> bool" where
  "truthy PNone = False"
| "truthy (PBool b) = b"
| "truthy (PInt i) = (i \<noteq> 0)"
| "truthy (PFloat x) = (x \<noteq> Finite 0 \<and> x \<noteq> NegZero)"
| "truthy (PStr s) = (s \<noteq> [])"
| "truthy (PList xs) = (xs \<noteq> [])"
| "truthy (PDict d) = (d \<noteq> [])"

text \<open>\<open>d.get(k)\<close>: the value, or \<open>None\<close> for a missing key.\<close>

definition dict_get :: "pydict \<Rightarrow> pystr \<Rightarrow> pyval" where
  "dict_get d k = (case map_of d k of None \<Rightarrow> PNone | Some v \<Rightarrow> v)"


section \<open>parsers/offering.py: merge_offering_data\<close>

text \<open>
  The keys of \<open>extra_fields\<close>, in the order the dictionary literal lists them. The loop
  \<open>for field, label in extra_fields.items()\<close> never reads \<open>label\<close>, so the Korean
  labels are left out.
\<close>

definition extra_fields :: "pystr list" where
  "extra_fields = map cps
     [''confirmed_price'', ''institutional_competition'', ''lockup_commitment'',
      ''listing_date'', ''demand_forecast_date'', ''subscription_date'',
      ''lead_underwriter'', ''offering_shares'', ''total_shares'',
      ''institutional_allocation'', ''retail_allocation'', ''employee_allocation'']"

definition crawler_key :: "pystr \<Rightarrow> pystr" where
  "crawler_key field = cps ''crawler_'' @ field"

text \<open>One iteration of the loop over \<open>extra_fields\<close>.\<close>

definition merge_field :: "pydict \<Rightarrow> pystr \<Rightarrow> pydict \<Rightarrow> pydict" where
  "merge_field crawler_data field merged =
     (case map_of crawler_data field of
        Some v \<Rightarrow> if truthy v then AList.update (crawler_key field) v merged else merged
      | None \<Rightarrow> merged)"

text \<open>
  \<open>merged = dict(dart_data)\<close> copies the dictionary; \<open>not crawler_data\<close> holds for
  \<open>None\<close> and for the empty dictionary.
\<close>

definition merge_offering_data :: "pydict \<Rightarrow> pydict option \<Rightarrow> pydict" where
  "merge_offering_data dart_data crawler_data =
     (case crawler_data of
        None \<Rightarrow> dart_data
      | Some c \<Rightarrow> if c = [] then dart_data else fold (merge_field c) extra_fields dart_data)"

section \<open>parsers/financial.py: calc_growth_rates\<close>

text \<open>Exceptions are values: a computation returns \<open>Inl e\<close> where the source raises.\<close>

definition bind_exn :: "exn + 'a \<Rightarrow> ('a \<Rightarrow> exn + 'b) \<Rightarrow> exn + 'b" where
  "bind_exn m f = (case m of Inl e \<Rightarrow> Inl e | Inr a \<Rightarrow> f a)"

subsection \<open>Binary64 arithmetic\<close>

text \<open>
  The result of an arithmetic operation on floats is the exact result rounded to the
  nearest binary64 value, ties to the value with an even significand. \<open>binade q\<close> is
  the exponent \<open>e\<close> with \<open>2 ^ e \<le> |q| < 2 ^ (e + 1)\<close>; the values of that binade are the
  multiples of \<open>2 ^ (e - 52)\<close>, and the subnormal values are the multiples of
  \<open>2 ^ -1074\<close>. A rounded value of \<open>2 ^ 1024\<close> or more is an overflow.
\<close>

fun bit_length :: "nat \<Rightarrow> nat" where
  "bit_length n = (if n = 0 then 0 else Suc (bit_length (n div 2)))"

declare bit_length.simps [simp del]

definition pow2 :: "int \<Rightarrow> rat" where
  "pow2 k = (if 0 \<le> k then 2 ^ nat k else 1 / 2 ^ nat (- k))"

definition binade :: "rat \<Rightarrow> int" where
  "binade q =
     (if 1 \<le> \<bar>q\<bar> then int (bit_length (nat \<lfloor>\<bar>q\<bar>\<rfloor>)) - 1
      else - int (bit_length (nat (\<lceil>1 / \<bar>q\<bar>\<rceil> - 1))))"

definition round_half_even :: "rat \<Rightarrow> int" where
  "round_half_even x =
     (let f = \<lfloor>x\<rfloor>; r = x - of_int f
      in if r < 1 / 2 then f else if 1 / 2 < r then f + 1 else if even f then f else f + 1)"

definition nearest64 :: "rat \<Rightarrow> rat" where
  "nearest64 q =
     (if q = 0 then 0
      else let u = pow2 (max (binade q - 52) (- 1074))
           in of_int (round_half_even (q / u)) * u)"

text \<open>
  Rounding an exact result that is not zero: an overflow gives the infinity of its sign,
  an underflow to zero gives the zero of its sign.
\<close>

definition round64 :: "rat \<Rightarrow> pyfloat" where
  "round64 q =
     (let r = nearest64 q
      in if pow2 1024 \<le> \<bar>r\<bar> then (if 0 < q then PosInf else NegInf)
         else if r = 0 \<and> q < 0 then NegZero
         else Finite r)"

definition is_zero :: "pyfloat \<Rightarrow> bool" where
  "is_zero x = (x = Finite 0 \<or> x = NegZero)"

fun is_neg :: "pyfloat \<Rightarrow> bool" where
  "is_neg (Finite r) = (r < 0)"
| "is_neg NegZero = True"
| "is_neg NegInf = True"
| "is_neg _ = False"

fun is_inf :: "pyfloat \<Rightarrow> bool" where
  "is_inf PosInf = True"
| "is_inf NegInf = True"
| "is_inf _ = False"

text \<open>The rational a finite float denotes; only used on finite floats.\<close>

fun fval :: "pyfloat \<Rightarrow> rat" where
  "fval (Finite r) = r"
| "fval _ = 0"

definition signed_zero :: "bool \<Rightarrow> pyfloat" where
  "signed_zero negative = (if negative then NegZero else Finite 0)"

definition signed_inf :: "bool \<Rightarrow> pyfloat" where
  "signed_inf negative = (if negative then NegInf else PosInf)"

text \<open>
  \<open>x - y\<close> on floats never raises. An exact difference of zero is \<open>0.0\<close>, except that
  \<open>-0.0 - 0.0\<close> is \<open>-0.0\<close>.
\<close>

definition fsub :: "pyfloat \<Rightarrow> pyfloat \<Rightarrow> pyfloat" where
  "fsub a b =
     (if a = NaN \<or> b = NaN then NaN
      else if is_inf a then (if b = a then NaN else a)
      else if is_inf b then signed_inf (b = PosInf)
      else let d = fval a - fval b
           in if d = 0 then signed_zero (a = NegZero \<and> b = Finite 0) else round64 d)"

fun fabs :: "pyfloat \<Rightarrow> pyfloat" where
  "fabs (Finite r) = Finite \<bar>r\<bar>"
| "fabs NegZero = Finite 0"
| "fabs PosInf = PosInf"
| "fabs NegInf = PosInf"
| "fabs NaN = NaN"

text \<open>
  \<open>x / y\<close> on floats raises \<open>ZeroDivisionError\<close> when \<open>y\<close> is one of the zeros, before
  it looks at \<open>x\<close>, and nothing else.
\<close>

definition fdiv :: "pyfloat \<Rightarrow> pyfloat \<Rightarrow> exn + pyfloat" where
  "fdiv a b =
     (if is_zero b then Inl ZeroDivisionError
      else if a = NaN \<or> b = NaN then Inr NaN
      else if is_inf a then Inr (if is_inf b then NaN else signed_inf (is_neg a \<noteq> is_neg b))
      else if is_inf b \<or> is_zero a then Inr (signed_zero (is_neg a \<noteq> is_neg b))
      else Inr (round64 (fval a / fval b)))"

text \<open>
  An integer becomes a float by rounding; one too large for a float raises
  \<open>OverflowError\<close>.
\<close>

definition int_to_float :: "int \<Rightarrow> exn + pyfloat" where
  "int_to_float i =
     (let x = round64 (of_int i) in if is_inf x then Inl OverflowError else Inr x)"

text \<open>
  \<open>x / y\<close> on integers is the exact quotient rounded once. A zero quotient has the
  sign of the divisor; a quotient too large for a float raises \<open>OverflowError\<close>.
\<close>

definition int_truediv :: "int \<Rightarrow> int \<Rightarrow> exn + pyfloat" where
  "int_truediv x y =
     (if y = 0 then Inl ZeroDivisionError
      else if x = 0 then Inr (signed_zero (y < 0))
      else let q = round64 (of_int x / of_int y)
           in if is_inf q then Inl OverflowError else Inr q)"

subsection \<open>The operators on values\<close>

text \<open>
  Python's numbers: \<open>bool\<close> is a subtype of \<open>int\<close>; an operation on two integers stays
  an integer, one with a float converts the integer operand to a float first, left
  operand before right, and any other operand raises \<open>TypeError\<close>. True division always
  gives a float.
\<close>

fun int_val :: "pyval \<Rightarrow> int option" where
  "int_val (PBool b) = Some (if b then 1 else 0)"
| "int_val (PInt i) = Some i"
| "int_val _ = None"

fun is_number :: "pyval \<Rightarrow> bool" where
  "is_number (PBool b) = True"
| "is_number (PInt i) = True"
| "is_number (PFloat x) = True"
| "is_number _ = False"

definition as_float :: "pyval \<Rightarrow> exn + pyfloat" where
  "as_float v =
     (case v of
        PFloat x \<Rightarrow> Inr x
      | _ \<Rightarrow> (case int_val v of Some i \<Rightarrow> int_to_float i | None \<Rightarrow> Inl TypeError))"

definition py_sub :: "pyval \<Rightarrow> pyval \<Rightarrow> exn + pyval" where
  "py_sub a b =
     (case (int_val a, int_val b) of
        (Some x, Some y) \<Rightarrow> Inr (PInt (x - y))
      | _ \<Rightarrow>
        if is_number a \<and> is_number b
        then bind_exn (as_float a) (\<lambda>x.
             bind_exn (as_float b) (\<lambda>y.
             Inr (PFloat (fsub x y))))
        else Inl TypeError)"

definition py_abs :: "pyval \<Rightarrow> exn + pyval" where
  "py_abs a =
     (case int_val a of
        Some x \<Rightarrow> Inr (PInt \<bar>x\<bar>)
      | None \<Rightarrow> (case a of PFloat x \<Rightarrow> Inr (PFloat (fabs x)) | _ \<Rightarrow> Inl TypeError))"

definition py_truediv :: "pyval \<Rightarrow> pyval \<Rightarrow> exn + pyval" where
  "py_truediv a b =
     (case (int_val a, int_val b) of
        (Some x, Some y) \<Rightarrow> bind_exn (int_truediv x y) (\<lambda>q. Inr (PFloat q))
      | _ \<Rightarrow>
        if is_number a \<and> is_number b
        then bind_exn (as_float a) (\<lambda>x.
             bind_exn (as_float b) (\<lambda>y.
             bind_exn (fdiv x y) (\<lambda>q.
             Inr (PFloat q))))
        else Inl TypeError)"

text \<open>
  \<open>v != 0\<close>: a number is compared by value (both zeros and \<open>False\<close> equal \<open>0\<close>, a NaN
  does not), any other value differs from \<open>0\<close>.
\<close>

definition py_ne_zero :: "pyval \<Rightarrow> bool" where
  "py_ne_zero v =
     (case v of
        PFloat x \<Rightarrow> \<not> is_zero x
      | _ \<Rightarrow> (case int_val v of Some i \<Rightarrow> i \<noteq> 0 | None \<Rightarrow> True))"

definition growth_fields :: "pystr list" where
  "growth_fields = map cps [''revenue'', ''operating_income'', ''net_income'']"

definition yoy_key :: "pystr \<Rightarrow> pystr" where
  "yoy_key field = field @ cps ''_yoy''"

text \<open>The expression \<open>(curr_val - prev_val) / abs(prev_val)\<close>, evaluated left to right.\<close>

definition growth_rate :: "pyval \<Rightarrow> pyval \<Rightarrow> exn + pyval" where
  "growth_rate prev_val curr_val =
     bind_exn (py_sub curr_val prev_val) (\<lambda>diff.
     bind_exn (py_abs prev_val) (\<lambda>a.
     py_truediv diff a))"

text \<open>
  The body of the inner loop for one field:
  \<open>if prev_val and curr_val and prev_val != 0: curr[f"{field}_yoy"] = (curr_val - prev_val) / abs(prev_val)\<close>.
\<close>

definition yoy_field :: "pydict \<Rightarrow> pystr \<Rightarrow> pydict \<Rightarrow> exn + pydict" where
  "yoy_field prev field cur =
     (let prev_val = dict_get prev field;
          curr_val = dict_get cur field
      in if truthy prev_val \<and> truthy curr_val \<and> py_ne_zero prev_val
         then bind_exn (growth_rate prev_val curr_val) (\<lambda>q.
              Inr (AList.update (yoy_key field) q cur))
         else Inr cur)"

fun yoy_fields :: "pydict \<Rightarrow> pystr list \<Rightarrow> pydict \<Rightarrow> exn + pydict" where
  "yoy_fields prev [] cur = Inr cur"
| "yoy_fields prev (field # fields) cur =
     bind_exn (yoy_field prev field cur) (yoy_fields prev fields)"

text \<open>
  The outer loop \<open>for i in range(1, len(summary))\<close>. The rows are distinct dictionary
  objects (\<open>build_financial_summary\<close> and \<open>_convert_filing_financials\<close> build a new one
  per year), so the list is a list of values; \<open>prev\<close> is row \<open>i - 1\<close> as the previous
  iteration left it.
\<close>

fun growth_loop :: "pydict \<Rightarrow> pydict list \<Rightarrow> exn + pydict list" where
  "growth_loop prev [] = Inr []"
| "growth_loop prev (cur # rest) =
     bind_exn (yoy_fields prev growth_fields cur) (\<lambda>cur'.
     bind_exn (growth_loop cur' rest) (\<lambda>rest'.
     Inr (cur' # rest')))"

fun calc_growth_rates :: "pydict list \<Rightarrow> exn + pydict list" where
  "calc_growth_rates [] = Inr []"
| "calc_growth_rates (first # rest) =
     bind_exn (growth_loop first rest) (\<lambda>rest'. Inr (first # rest'))"

section \<open>main.py: _convert_filing_financials\<close>

text \<open>
  \<open>str(v)\<close> returns a string unchanged; how the builtin renders any other value (the
  digits of a number, \<open>None\<close>, the \<open>repr\<close> of a container) is the parameter
  \<open>render\<close>.
\<close>

definition py_str :: "(pyval \<Rightarrow> pystr) \<Rightarrow> pyval \<Rightarrow> pystr" where
  "py_str render v = (case v of PStr s \<Rightarrow> s | _ \<Rightarrow> render v)"

definition dot :: nat where
  "dot = 46"

text \<open>
  \<open>year.split(".")[0]\<close> is the text before the first dot; otherwise
  \<open>year[:4] if len(year) >= 4 else year\<close>.
\<close>

definition year_part :: "pystr \<Rightarrow> pystr" where
  "year_part year =
     (if dot \<in> set year then takeWhile (\<lambda>c. c \<noteq> dot) year
      else if length year \<ge> 4 then take 4 year else year)"

definition item_keys :: "pystr list" where
  "item_keys = map cps
     [''revenue'', ''operating_income'', ''net_income'', ''total_assets'',
      ''total_liabilities'', ''total_equity'', ''operating_cashflow'']"

text \<open>The source label of a converted row, the Korean word for the registration statement.\<close>

definition source_label :: pystr where
  "source_label = [51613, 44428, 49888, 44256, 49436]"

text \<open>
  One iteration of the first loop: \<open>year = str(item.get("year", ""))\<close>, then the row.
  \<open>period = item.get("period_type", "annual")\<close> is read and never used (the branch on it
  is \<open>pass\<close>), so it is left out.
\<close>

definition item_year :: "(pyval \<Rightarrow> pystr) \<Rightarrow> pydict \<Rightarrow> pystr" where
  "item_year render item =
     py_str render (case map_of item (cps ''year'') of None \<Rightarrow> PStr [] | Some v \<Rightarrow> v)"

definition convert_row :: "(pyval \<Rightarrow> pystr) \<Rightarrow> pydict \<Rightarrow> pydict" where
  "convert_row render item =
     (let year = item_year render item
      in (cps ''year'', PStr (year_part year))
         # map (\<lambda>k. (k, dict_get item k)) item_keys
         @ [(cps ''source'', PStr source_label)])"

text \<open>The sort key \<open>x["year"]\<close>; every converted row holds a string there.\<close>

definition row_year :: "pydict \<Rightarrow> pystr" where
  "row_year r = (case dict_get r (cps ''year'') of PStr s \<Rightarrow> s | _ \<Rightarrow> [])"

text \<open>The second loop: a row is kept when its year is not in \<open>seen\<close>.\<close>

fun unique_years :: "pystr set \<Rightarrow> pydict list \<Rightarrow> pydict list" where
  "unique_years seen [] = []"
| "unique_years seen (r # rs) =
     (if row_year r \<notin> seen then r # unique_years (insert (row_year r) seen) rs
      else unique_years seen rs)"

text \<open>\<open>list.sort\<close> is stable, as \<open>sort_key\<close> is.\<close>

definition convert_filing_financials ::
    "(pyval \<Rightarrow> pystr) \<Rightarrow> pydict list \<Rightarrow> exn + pydict list" where
  "convert_filing_financials render filing_fin =
     (let result = map (convert_row render) filing_fin;
          unique = unique_years {} (sort_key row_year result)
      in if unique \<noteq> [] then calc_growth_rates unique else Inr [])"


section \<open>parsers/llm_parser.py: _extract_section\<close>

text \<open>
  What the source takes from the Unicode tables of the interpreter is a parameter:
  \<open>str.lower\<close> (which may change the length of a string), the characters a pattern
  literal matches under \<open>re.IGNORECASE\<close>, and the characters \<open>\d\<close> matches.
\<close>

record unicode =
  str_lower :: "pystr \<Rightarrow> pystr"
  ci_match :: "nat \<Rightarrow> nat \<Rightarrow> bool"
  is_digit :: "nat \<Rightarrow> bool"

text \<open>
  The regular expressions of \<open>_extract_section\<close> are sequences of literals (an escaped
  keyword is a literal) and negated one-character classes under a star. A sequence matches
  at the start of a string when the string splits accordingly; \<open>re.search\<close> returns the
  leftmost offset where it does.
\<close>

datatype rx = Lit pystr | NotStar nat

fun rx_match :: "unicode \<Rightarrow> rx list \<Rightarrow> pystr \<Rightarrow> bool" where
  "rx_match U [] s = True"
| "rx_match U (Lit p # rs) s =
     (length p \<le> length s \<and> list_all2 (ci_match U) p (take (length p) s) \<and>
      rx_match U rs (drop (length p) s))"
| "rx_match U (NotStar c # rs) [] = rx_match U rs []"
| "rx_match U (NotStar c # rs) (x # xs) =
     (rx_match U rs (x # xs) \<or> (x \<noteq> c \<and> rx_match U (NotStar c # rs) xs))"

fun re_search :: "unicode \<Rightarrow> rx list \<Rightarrow> pystr \<Rightarrow> nat \<Rightarrow> nat option" where
  "re_search U p [] i = (if rx_match U p [] then Some i else None)"
| "re_search U p (x # xs) i =
     (if rx_match U p (x # xs) then Some i else re_search U p xs (Suc i))"

definition lt :: nat where
  "lt = 60"

definition gt :: nat where
  "gt = 62"

text \<open>The pattern \<open>f"<TITLE[^>]*>[^<]*{re.escape(kw)}[^<]*</TITLE>"\<close>.\<close>

definition title_pattern :: "pystr \<Rightarrow> rx list" where
  "title_pattern kw =
     [Lit (cps ''<TITLE''), NotStar gt, Lit [gt], NotStar lt, Lit kw, NotStar lt,
      Lit (cps ''</TITLE>'')]"

text \<open>
  \<open>s[i:j]\<close>: a negative index counts from the end, and both indices are clamped to the
  string.
\<close>

definition py_slice :: "'a list \<Rightarrow> int \<Rightarrow> int \<Rightarrow> 'a list" where
  "py_slice xs i j =
     (let n = int (length xs);
          i' = (if i < 0 then max 0 (i + n) else min i n);
          j' = (if j < 0 then max 0 (j + n) else min j n)
      in take (nat (j' - i')) (drop (nat i') xs))"

text \<open>
  \<open>s.find(sub, start)\<close> for \<open>start \<ge> 0\<close>: the lowest index at or after \<open>start\<close> where
  \<open>sub\<close> occurs, or \<open>-1\<close>; an empty \<open>sub\<close> occurs at every index up to \<open>len(s)\<close>.
\<close>

fun find_at :: "pystr \<Rightarrow> pystr \<Rightarrow> nat \<Rightarrow> nat option" where
  "find_at sub [] i = (if sub = [] then Some i else None)"
| "find_at sub (x # xs) i = (if prefix sub (x # xs) then Some i else find_at sub xs (Suc i))"

definition py_find :: "pystr \<Rightarrow> pystr \<Rightarrow> nat \<Rightarrow> int" where
  "py_find s sub start =
     (if start > length s then - 1
      else case find_at sub (drop start s) start of None \<Rightarrow> - 1 | Some i \<Rightarrow> int i)"

text \<open>
  \<open>s.count(sub)\<close>: the occurrences of \<open>sub\<close> that do not overlap, from the left;
  \<open>skip\<close> counts the characters still covered by the last occurrence.
\<close>

fun count_from :: "pystr \<Rightarrow> pystr \<Rightarrow> nat \<Rightarrow> nat" where
  "count_from sub [] skip = 0"
| "count_from sub (x # xs) skip =
     (if skip = 0 \<and> prefix sub (x # xs) then Suc (count_from sub xs (length sub - 1))
      else count_from sub xs (skip - 1))"

definition py_count :: "pystr \<Rightarrow> pystr \<Rightarrow> nat" where
  "py_count s sub = (if sub = [] then length s + 1 else count_from sub s 0)"

text \<open>
  \<open>len(re.findall(r"\d{3,}", section))\<close>: the maximal runs of digits that are at least
  three long; \<open>run\<close> is the length of the run being read.
\<close>

fun digit_runs :: "unicode \<Rightarrow> pystr \<Rightarrow> nat \<Rightarrow> nat" where
  "digit_runs U [] run = (if run \<ge> 3 then 1 else 0)"
| "digit_runs U (x # xs) run =
     (if is_digit U x then digit_runs U xs (Suc run)
      else (if run \<ge> 3 then 1 else 0) + digit_runs U xs 0)"

definition section_score :: "unicode \<Rightarrow> pystr \<Rightarrow> int" where
  "section_score U section =
     (let table_count = py_count (str_lower U section) (cps ''<table'');
          number_count = digit_runs U section 0
      in int table_count * 5 + int number_count)"

text \<open>
  The first loop: the keywords in order against the \<open>TITLE\<close> tags; the first match
  returns \<open>html[idx : min(len(html), idx + max_chars)]\<close>.
\<close>

fun title_phase :: "unicode \<Rightarrow> pystr \<Rightarrow> pystr list \<Rightarrow> int \<Rightarrow> pystr option" where
  "title_phase U html [] max_chars = None"
| "title_phase U html (kw # kws) max_chars =
     (case re_search U (title_pattern kw) html 0 of
        Some idx \<Rightarrow>
          Some (py_slice html (int idx) (min (int (length html)) (int idx + max_chars)))
      | None \<Rightarrow> title_phase U html kws max_chars)"

text \<open>
  The \<open>while True\<close> loop for one keyword. It need not terminate (an empty keyword is found
  again at the same place for ever), so it is a partial function: \<open>None\<close> is a loop that
  never returns. \<open>start_pos\<close> starts at 0 and only grows, so it is a natural number.
\<close>

partial_function (option) scan_keyword ::
    "unicode \<Rightarrow> pystr \<Rightarrow> pystr \<Rightarrow> pystr \<Rightarrow> int \<Rightarrow> pystr \<Rightarrow> int \<Rightarrow> nat \<Rightarrow> (pystr \<times> int) option" where
  "scan_keyword U html html_lower kw max_chars best_section best_score start_pos =
     (let idx = py_find html_lower (str_lower U kw) start_pos
      in if idx < 0 then Some (best_section, best_score)
         else
           let start = max 0 (idx - 200);
               stop = min (int (length html)) (idx + max_chars);
               section = py_slice html start stop;
               score = section_score U section
           in if score > best_score
              then scan_keyword U html html_lower kw max_chars section score
                     (nat idx + length kw)
              else scan_keyword U html html_lower kw max_chars best_section best_score
                     (nat idx + length kw))"

text \<open>The second loop: the keywords in order against the text.\<close>

fun text_phase :: "unicode \<Rightarrow> pystr \<Rightarrow> pystr \<Rightarrow> pystr list \<Rightarrow> int \<Rightarrow> pystr option" where
  "text_phase U html html_lower [] max_chars = Some []"
| "text_phase U html html_lower (kw # kws) max_chars =
     (case scan_keyword U html html_lower kw max_chars [] 0 0 of
        None \<Rightarrow> None
      | Some (best_section, best_score) \<Rightarrow>
          if best_section \<noteq> [] \<and> best_score > 10 then Some best_section
          else text_phase U html html_lower kws max_chars)"

definition extract_section :: "unicode \<Rightarrow> pystr \<Rightarrow> pystr list \<Rightarrow> int \<Rightarrow> pystr option" where
  "extract_section U html keywords max_chars =
     (case title_phase U html keywords max_chars of
        Some section \<Rightarrow> Some section
      | None \<Rightarrow> text_phase U html (str_lower U html) keywords max_chars)"


section \<open>parsers/llm_parser.py: load_filing_html\<close>

text \<open>
  A directory entry is a name and what \<open>read_text\<close> gives for each of the two encodings
  the source tries: the text, or the exception raised (a directory named \<open>x.html\<close>, a
  file that cannot be opened). \<open>glob("*.html")\<close> keeps the entries whose name ends in
  \<open>.html\<close>; \<open>sorted\<close> orders the paths of one directory by name.
\<close>

record pyfile =
  fname :: pystr
  read_utf8 :: "exn + pystr"
  read_euckr :: "exn + pystr"

type_synonym directory = "pyfile list"

definition glob_ext :: "string \<Rightarrow> directory \<Rightarrow> pyfile list" where
  "glob_ext ext dir = filter (\<lambda>f. suffix (cps ext) (fname f)) dir"

text \<open>The text added for one file: \<open>f"\n<!-- FILE: {f.name} -->\n{content}"\<close>.\<close>

definition file_chunk :: "pystr \<Rightarrow> pystr \<Rightarrow> pystr" where
  "file_chunk name content = (10 # cps ''<!-- FILE: '') @ name @ cps '' -->'' @ [10] @ content"

fun read_files :: "pystr \<Rightarrow> pyfile list \<Rightarrow> pystr" where
  "read_files combined [] = combined"
| "read_files combined (f # fs) =
     (case read_utf8 f of
        Inr content \<Rightarrow> read_files (combined @ file_chunk (fname f) content) fs
      | Inl _ \<Rightarrow>
          (case read_euckr f of
             Inr content \<Rightarrow> read_files (combined @ file_chunk (fname f) content) fs
           | Inl _ \<Rightarrow> read_files combined fs))"

definition load_filing_html :: "directory \<Rightarrow> pystr" where
  "load_filing_html filing_dir =
     (let html_files = sort_key fname (glob_ext ''.html'' filing_dir)
                     @ sort_key fname (glob_ext ''.htm'' filing_dir);
          html_files = (if html_files = [] then sort_key fname (glob_ext ''.xml'' filing_dir)
                        else html_files)
      in read_files [] html_files)"

section \<open>The pipeline and the world it calls\<close>

text \<open>
  A run yields the trace of the calls the claims are about and an outcome: a value, an
  exception, or no return at all.
\<close>

datatype purpose = Lockup | Business | Valuation_summary | Peers | Financials | Analysis

datatype event =
    Crawled pystr
  | LLM_call purpose
  | Invoked_extract_financials
  | Saved_report
  | Saved_excel
  | Saved_json

datatype 'a outcome = Returns 'a | Raises exn | Diverges

type_synonym 'a run = "event list \<times> 'a outcome"

definition ret :: "'a \<Rightarrow> 'a run" where
  "ret a = ([], Returns a)"

definition emit :: "event \<Rightarrow> unit run" where
  "emit e = ([e], Returns ())"

definition of_exn :: "exn + 'a \<Rightarrow> 'a run" where
  "of_exn r = (case r of Inl e \<Rightarrow> ([], Raises e) | Inr a \<Rightarrow> ([], Returns a))"

definition of_option :: "'a option \<Rightarrow> 'a run" where
  "of_option r = (case r of None \<Rightarrow> ([], Diverges) | Some a \<Rightarrow> ([], Returns a))"

definition run_bind :: "'a run \<Rightarrow> ('a \<Rightarrow> 'b run) \<Rightarrow> 'b run" where
  "run_bind m f =
     (case m of
        (t, Returns a) \<Rightarrow> (case f a of (t', r) \<Rightarrow> (t @ t', r))
      | (t, Raises e) \<Rightarrow> (t, Raises e)
      | (t, Diverges) \<Rightarrow> (t, Diverges))"

text \<open>
  The world is what the pipeline calls and does not compute: the DART and 38.co.kr
  collectors with the parsers that clean their responses, the language model, the JSON
  reader, the builtins \<open>str\<close> and \<open>int\<close> on a string, the file system and the
  spreadsheet library. Each call site runs at most once in a run, so a function of the
  arguments describes any behaviour of the world in that run.
  \<open>call_llm\<close> is \<open>_call_llm\<close> for the fixed prompt of a call site, applied to the text
  put after the prompt; \<open>equity_offering\<close> is \<open>parse_equity_registration\<close> of the
  \<open>get_equity_registration\<close> response; \<open>financial_summary\<close> is
  \<open>build_financial_summary\<close> of the \<open>get_financials_multi_year\<close> response;
  \<open>download_document\<close> gives the directory the filing was unpacked into.

  For the writers: \<open>mkdir_reports\<close> is \<open>REPORTS_DIR.mkdir\<close> at the head of each of the
  three writers; \<open>write_report\<close> is the \<open>write_text\<close> that ends \<open>save_report\<close>;
  \<open>sheet_title\<close> is the assignment \<open>ws.title = company_name\<close>; \<open>cell_value\<close> is
  \<open>ws.cell(..., value=v)\<close> for a value \<open>v\<close> taken from the collected data, which the
  library refuses for some values, whatever the cell; \<open>save_workbook\<close> is \<open>wb.save\<close>;
  \<open>write_json\<close> is \<open>json.dumps\<close> and \<open>write_text\<close> in \<open>save_raw_data\<close>. The calls of
  the library whose arguments are constants of the source (headers, styles, widths, merged
  cells, borders) are taken to return, and so are the cells the source only reads; a sheet
  is taken to be within the row and column limits of the library. \<open>py_int\<close> is
  \<open>int(s)\<close> for a string, \<open>None\<close> when it raises \<open>ValueError\<close>.
\<close>

record filing =
  report_nm :: pystr
  rcept_no :: pystr

datatype writer = Report | Excel | Json

record world =
  search_corp_code :: "pystr \<Rightarrow> exn + pystr option"
  get_company_info :: "pystr \<Rightarrow> exn + pydict option"
  search_filings :: "pystr \<Rightarrow> exn + filing list"
  equity_offering :: "pystr \<Rightarrow> exn + pydict option"
  financial_summary :: "pystr \<Rightarrow> exn + pydict list"
  search_38 :: "pystr \<Rightarrow> exn + pydict option"
  download_document :: "pystr \<Rightarrow> exn + directory option"
  call_llm :: "purpose \<Rightarrow> pystr \<Rightarrow> exn + pystr"
  extract_json :: "pystr \<Rightarrow> pyval"
  analysis_llm :: "pydict \<Rightarrow> pystr \<Rightarrow> exn + pystr"
  py_render :: "pyval \<Rightarrow> pystr"
  py_int :: "pystr \<Rightarrow> int option"
  mkdir_reports :: "writer \<Rightarrow> exn + unit"
  write_report :: "pystr \<Rightarrow> pystr \<Rightarrow> pydict \<Rightarrow> exn + unit"
  sheet_title :: "pystr \<Rightarrow> exn + unit"
  cell_value :: "pyval \<Rightarrow> exn + unit"
  save_workbook :: "pystr \<Rightarrow> exn + unit"
  write_json :: "pystr \<Rightarrow> pydict \<Rightarrow> exn + unit"

subsection \<open>The extraction functions of parsers/llm_parser.py\<close>

definition lockup_keywords :: "pystr list" where
  "lockup_keywords =
     [[49345, 51109, 32, 54980, 32, 50976, 53685, 44032, 45733, 32, 48143, 32, 47588, 44033,
       51228, 54620],
      [50976, 53685, 44032, 45733, 51452, 49885, 51064],
      [47588, 44033, 51228, 54620, 32, 47932, 47049],
      [48372, 54840, 50696, 49688],
      [50976, 53685, 51228, 54620],
      cps ''Lock-up'', cps ''lock-up'']"

definition business_keywords :: "pystr list" where
  "business_keywords =
     [[49324, 50629, 51032, 32, 45236, 50857],
      [49324, 50629, 51032, 45236, 50857],
      [54924, 49324, 51032, 32, 44060, 50836],
      [51452, 50836, 51228, 54408],
      [51452, 50836, 32, 51228, 54408]]"

definition valuation_keywords :: "pystr list" where
  "valuation_keywords =
     [[51064, 49688, 51064, 51032, 32, 51032, 44204],
      [48708, 44368, 44032, 52824],
      [44277, 47784, 44032, 44201, 50640, 32, 45824, 54620, 32, 51032, 44204]]"

definition peer_keywords :: "pystr list" where
  "peer_keywords =
     [[48708, 44368, 44592, 50629, 51032, 32, 51452, 50836, 32, 51116, 47924, 54788, 54889],
      [50976, 49324, 44592, 50629, 32, 50836, 50557, 32, 51116, 47924, 32, 54788, 54889],
      [48708, 44368, 44592, 50629, 32, 54788, 54889],
      [50976, 49324, 44592, 50629, 32, 54788, 54889]]"

definition per_keywords :: "pystr list" where
  "per_keywords =
     [[48708, 44368, 44592, 50629, 32, 80, 69, 82, 32, 49328, 52636],
      [51201, 50857, 32, 80, 69, 82],
      [50976, 49324, 44592, 50629, 32, 80, 69, 82],
      [80, 69, 82, 32, 49328, 52636, 45236, 50669],
      [80, 69, 82, 32, 49328, 52636, 32, 45236, 50669]]"

definition financial_keywords :: "pystr list" where
  "financial_keywords =
     [[50836, 50557, 32, 51116, 47924, 51221, 48372],
      [50836, 50557, 51116, 47924, 51221, 48372],
      [51116, 47924, 50640, 32, 44288, 54620, 32, 49324, 54637],
      [51116, 47924, 51228, 54364],
      [49552, 51061, 44228, 49328, 49436],
      [54252, 44292, 49552, 51061, 44228, 49328, 49436]]"

text \<open>
  The shape shared by \<open>extract_lockup_schedule\<close>, \<open>extract_business_summary\<close> and
  \<open>extract_financials_from_filing\<close>: locate the section, return \<open>None\<close> without a call
  when it is empty, otherwise call the model on \<open>section[:limit]\<close> and read the JSON.
\<close>

definition extract_with :: "world \<Rightarrow> unicode \<Rightarrow> purpose \<Rightarrow> pystr list \<Rightarrow> int \<Rightarrow> nat \<Rightarrow> pystr \<Rightarrow> pyval run" where
  "extract_with W U p keywords max_chars limit html =
     run_bind (of_option (extract_section U html keywords max_chars)) (\<lambda>section.
       if section = [] then ret PNone
       else run_bind (emit (LLM_call p)) (\<lambda>_.
            run_bind (of_exn (call_llm W p (take limit section))) (\<lambda>result.
            ret (extract_json W result))))"

definition extract_lockup_schedule :: "world \<Rightarrow> unicode \<Rightarrow> pystr \<Rightarrow> pyval run" where
  "extract_lockup_schedule W U html = extract_with W U Lockup lockup_keywords 15000 15000 html"

definition extract_business_summary :: "world \<Rightarrow> unicode \<Rightarrow> pystr \<Rightarrow> pyval run" where
  "extract_business_summary W U html =
     extract_with W U Business business_keywords 20000 15000 html"

definition extract_financials_from_filing :: "world \<Rightarrow> unicode \<Rightarrow> pystr \<Rightarrow> pyval run" where
  "extract_financials_from_filing W U html =
     extract_with W U Financials financial_keywords 25000 20000 html"

text \<open>\<open>d[k] = v\<close> on a value that may not be a dictionary.\<close>

definition set_item :: "pyval \<Rightarrow> pystr \<Rightarrow> pyval \<Rightarrow> exn + pyval" where
  "set_item d k v = (case d of PDict al \<Rightarrow> Inr (PDict (AList.update k v al)) | _ \<Rightarrow> Inl TypeError)"

definition per_header :: pystr where
  "per_header = [91, 80, 69, 82, 32, 49328, 52636, 32, 50689, 50669, 93, 10]"

definition peer_header :: pystr where
  "peer_header = [91, 48708, 44368, 44592, 50629, 32, 51116, 47924, 54788, 54889, 93, 10]"

text \<open>
  The second pass of \<open>extract_peer_valuation\<close>, from \<open>peers = []\<close> to the end, in the
  blocks of the source: the text sent to the model, what is read from its answer, the call,
  and the merge of the two passes.
\<close>

definition combined_sections :: "pystr \<Rightarrow> pystr \<Rightarrow> pystr" where
  "combined_sections peer_section per_section =
     (if per_section \<noteq> [] then per_header @ take 12000 per_section @ [10, 10] else [])
     @ (if peer_section \<noteq> [] then peer_header @ take 15000 peer_section @ [10, 10] else [])"

definition read_peer_data :: "pyval \<Rightarrow> pyval \<Rightarrow> (pyval \<times> pyval) run" where
  "read_peer_data valuation_summary peer_data =
     (if truthy peer_data then
        (case peer_data of
           PDict pd \<Rightarrow>
             (let peers = (case map_of pd (cps ''peers'') of None \<Rightarrow> PList [] | Some v \<Rightarrow> v)
              in if truthy (dict_get pd (cps ''average_per''))
                 then run_bind
                        (of_exn (set_item valuation_summary (cps ''average_peer_per'')
                                   (dict_get pd (cps ''average_per''))))
                        (\<lambda>vs. ret (vs, peers))
                 else ret (valuation_summary, peers))
         | PList xs \<Rightarrow> ret (valuation_summary, peer_data)
         | _ \<Rightarrow> ret (valuation_summary, PList []))
      else ret (valuation_summary, PList []))"

definition peer_call :: "world \<Rightarrow> pyval \<Rightarrow> pystr \<Rightarrow> pystr \<Rightarrow> (pyval \<times> pyval) run" where
  "peer_call W valuation_summary peer_section per_section =
     (if peer_section \<noteq> [] \<or> per_section \<noteq> [] then
        (let combined = combined_sections peer_section per_section
         in if combined \<noteq> [] then
              run_bind (emit (LLM_call Peers)) (\<lambda>_.
              run_bind (of_exn (call_llm W Peers combined)) (\<lambda>result.
              read_peer_data valuation_summary (extract_json W result)))
            else ret (valuation_summary, PList []))
      else ret (valuation_summary, PList []))"

definition finish_valuation :: "pyval \<times> pyval \<Rightarrow> pyval run" where
  "finish_valuation vp =
     (case vp of (valuation_summary, peers) \<Rightarrow>
        if \<not> truthy valuation_summary \<and> \<not> truthy peers then ret PNone
        else of_exn (set_item valuation_summary (cps ''peers'') peers))"

definition peer_pass :: "world \<Rightarrow> pyval \<Rightarrow> pystr \<Rightarrow> pystr \<Rightarrow> pyval run" where
  "peer_pass W valuation_summary peer_section per_section =
     run_bind (peer_call W valuation_summary peer_section per_section) finish_valuation"

text \<open>The first pass: the valuation summary, \<open>{}\<close> when the section is not found.\<close>

definition valuation_pass :: "world \<Rightarrow> pystr \<Rightarrow> pyval run" where
  "valuation_pass W val_section =
     (if val_section \<noteq> [] then
        run_bind (emit (LLM_call Valuation_summary)) (\<lambda>_.
        run_bind (of_exn (call_llm W Valuation_summary (take 18000 val_section))) (\<lambda>result.
        let v = extract_json W result in ret (if truthy v then v else PDict [])))
      else ret (PDict []))"

definition extract_peer_valuation :: "world \<Rightarrow> unicode \<Rightarrow> pystr \<Rightarrow> pyval run" where
  "extract_peer_valuation W U html =
     run_bind (of_option (extract_section U html valuation_keywords 20000)) (\<lambda>val_section.
     run_bind (valuation_pass W val_section) (\<lambda>valuation_summary.
     run_bind (of_option (extract_section U html peer_keywords 25000)) (\<lambda>peer_section.
     run_bind (of_option (extract_section U html per_keywords 15000)) (\<lambda>per_section.
     peer_pass W valuation_summary peer_section per_section))))"

text \<open>
  \<open>print(f"... {len(lockup)} ...")\<close> after a true result: a number has no \<open>len\<close>.
\<close>

definition len_check :: "pyval \<Rightarrow> unit run" where
  "len_check v = (if is_number v then ([], Raises TypeError) else ret ())"

text \<open>
  \<open>parse_full_filing\<close> after the HTML is loaded: the three extractions that always run,
  then the one that runs only when \<open>need_financials\<close> is set.
\<close>

definition extract_three :: "world \<Rightarrow> unicode \<Rightarrow> pystr \<Rightarrow> pydict run" where
  "extract_three W U html =
     run_bind (extract_lockup_schedule W U html) (\<lambda>lockup.
     run_bind (if truthy lockup then len_check lockup else ret ()) (\<lambda>_.
     let result = (if truthy lockup then [(cps ''lockup_schedule'', lockup)] else [])
     in
     run_bind (extract_business_summary W U html) (\<lambda>business.
     let result = (if truthy business
                   then AList.update (cps ''business'') business result else result)
     in
     run_bind (extract_peer_valuation W U html) (\<lambda>valuation.
     ret (if truthy valuation
          then AList.update (cps ''valuation'') valuation result else result)))))"

definition extract_fallback :: "world \<Rightarrow> unicode \<Rightarrow> pystr \<Rightarrow> pydict \<Rightarrow> pydict run" where
  "extract_fallback W U html result =
     run_bind (emit Invoked_extract_financials) (\<lambda>_.
     run_bind (extract_financials_from_filing W U html) (\<lambda>financials.
     if truthy financials then
       run_bind (len_check financials) (\<lambda>_.
       ret (AList.update (cps ''filing_financials'') financials result))
     else ret result))"

definition parse_full_filing :: "world \<Rightarrow> unicode \<Rightarrow> directory \<Rightarrow> bool \<Rightarrow> pydict run" where
  "parse_full_filing W U filing_dir need_financials =
     (let html = load_filing_html filing_dir
      in if html = [] then ret []
         else
           run_bind (extract_three W U html) (\<lambda>result.
           if need_financials then extract_fallback W U html result else ret result))"

subsection \<open>analysis/analyst.py: generate_analysis\<close>

definition generate_analysis :: "world \<Rightarrow> pydict \<Rightarrow> pystr \<Rightarrow> pystr run" where
  "generate_analysis W data company_name =
     run_bind (emit (LLM_call Analysis)) (\<lambda>_. of_exn (analysis_llm W data company_name))"

subsection \<open>main.py: run_pipeline\<close>

text \<open>\<open>sub in s\<close> for strings.\<close>

definition py_in :: "pystr \<Rightarrow> pystr \<Rightarrow> bool" where
  "py_in sub s = (find_at sub s 0 \<noteq> None)"

definition kw_registration :: pystr where
  "kw_registration = [51613, 44428, 49888, 44256, 49436]"

definition kw_issue_result :: pystr where
  "kw_issue_result = [48156, 54665, 49892, 51201]"

definition kw_terms_fixed :: pystr where
  "kw_terms_fixed = [48156, 54665, 51312, 44148, 54869, 51221]"

definition kw_amended :: pystr where
  "kw_amended = [44592, 51116, 51221, 51221]"

definition kw_prospectus :: pystr where
  "kw_prospectus = [53804, 51088, 49444, 47749, 49436]"

definition kw_attachment :: pystr where
  "kw_attachment = [52392, 48512]"

text \<open>
  The choice of the filing: the registration statements that are neither issuance results
  nor fixings of terms, amended ones first (the sort by priority is stable).
\<close>

definition choose_rcept_no :: "filing list \<Rightarrow> pystr option" where
  "choose_rcept_no filings =
     (let candidates =
            map (\<lambda>f. (if py_in kw_amended (report_nm f) then 0 else 1 :: nat, f))
              (filter (\<lambda>f. py_in kw_registration (report_nm f)
                           \<and> \<not> py_in kw_issue_result (report_nm f)
                           \<and> \<not> py_in kw_terms_fixed (report_nm f)) filings)
      in case sort_key fst candidates of
           [] \<Rightarrow> None
         | (_, chosen) # _ \<Rightarrow> Some (rcept_no chosen))"

definition find_invest_doc :: "filing list \<Rightarrow> pystr option" where
  "find_invest_doc filings =
     map_option rcept_no
       (find (\<lambda>f. py_in kw_prospectus (report_nm f) \<and> \<not> py_in kw_attachment (report_nm f))
          filings)"

text \<open>
  The first \<open>print\<close> of step 2 that can raise: with a true \<open>offering_price\<close> the first
  security is printed with \<open>{sec.get('count'):,}\<close>, and \<open>parse_equity_registration\<close> gives
  \<open>None\<close> for a count it cannot read.
\<close>

definition offering_print :: "pydict \<Rightarrow> exn + unit" where
  "offering_print offering =
     (case map_of offering (cps ''securities'') of
        Some (PList (PDict sec # _)) \<Rightarrow>
          if truthy (dict_get sec (cps ''offering_price''))
             \<and> \<not> is_number (dict_get sec (cps ''count''))
          then Inl TypeError else Inr ()
      | _ \<Rightarrow> Inr ())"

text \<open>
  A \<open>for\<close> loop whose body can raise: the first exception ends the loop.
\<close>

fun each :: "('a \<Rightarrow> exn + unit) \<Rightarrow> 'a list \<Rightarrow> exn + unit" where
  "each f [] = Inr ()"
| "each f (x # xs) = bind_exn (f x) (\<lambda>_. each f xs)"

text \<open>
  The \<open>print\<close> of each row in steps 2 and 4:
  \<open>rev_str = f"{rev/100_000_000:,.0f}" if rev else "N/A"\<close>. Formatting a float does not
  raise. The rows of step 2 come from \<open>build_financial_summary\<close> and
  \<open>calc_growth_rates\<close>, and those of step 4 from \<open>_convert_filing_financials\<close>: they
  hold a \<open>'year'\<close>, and a \<open>'revenue_yoy'\<close> set by \<open>calc_growth_rates\<close> is a float, so
  \<open>row['year']\<close> and \<open>f"{yoy:+.1%}"\<close> do not raise.
\<close>

definition revenue_print :: "pydict \<Rightarrow> exn + unit" where
  "revenue_print row =
     (let rev = dict_get row (cps ''revenue'')
      in if truthy rev then bind_exn (py_truediv rev (PInt 100000000)) (\<lambda>_. Inr ())
         else Inr ())"

definition rows_print :: "pydict list \<Rightarrow> exn + unit" where
  "rows_print rows = each revenue_print rows"

definition step_2 :: "world \<Rightarrow> pystr \<Rightarrow> (pydict \<times> pystr option) run" where
  "step_2 W corp_code =
     run_bind (of_exn (get_company_info W corp_code)) (\<lambda>company_info.
     let collected = (case company_info of
                        Some ci \<Rightarrow> if ci \<noteq> [] then [(cps ''company_info'', PDict ci)] else []
                      | None \<Rightarrow> [])
     in
     run_bind (of_exn (search_filings W corp_code)) (\<lambda>filings.
     let rcept = (case filings of [] \<Rightarrow> None | _ # _ \<Rightarrow> choose_rcept_no filings);
         collected = (case filings of
                        [] \<Rightarrow> collected
                      | _ # _ \<Rightarrow>
                          AList.update (cps ''_invest_doc_rcept_no'')
                            (case find_invest_doc filings of None \<Rightarrow> PNone | Some r \<Rightarrow> PStr r)
                            collected);
         rcept = (case filings of
                    [] \<Rightarrow> rcept
                  | first # _ \<Rightarrow>
                      if rcept = None \<or> rcept = Some [] then Some (rcept_no first) else rcept)
     in
     run_bind (of_exn (equity_offering W corp_code)) (\<lambda>equity.
     run_bind
       (case equity of
          Some offering \<Rightarrow>
            run_bind (of_exn (offering_print offering)) (\<lambda>_.
            ret (AList.update (cps ''offering'') (PDict offering) collected))
        | None \<Rightarrow> ret collected)
       (\<lambda>collected.
     run_bind (of_exn (financial_summary W corp_code)) (\<lambda>summary.
     if summary \<noteq> [] then
       run_bind (of_exn (calc_growth_rates summary)) (\<lambda>fin_summary.
       run_bind (of_exn (rows_print fin_summary)) (\<lambda>_.
       ret (AList.update (cps ''financials'') (PList (map PDict fin_summary)) collected, rcept)))
     else ret (collected, rcept))))))"

text \<open>
  Step 3: \<open>try: crawler_data = search_38(company_name) except Exception: crawler_data = None\<close>.
\<close>

definition step_3 :: "world \<Rightarrow> pystr \<Rightarrow> pydict \<Rightarrow> pydict run" where
  "step_3 W company_name collected =
     run_bind (emit (Crawled company_name)) (\<lambda>_.
     let crawler_data = (case search_38 W company_name of Inl e \<Rightarrow> None | Inr r \<Rightarrow> r)
     in case crawler_data of
          None \<Rightarrow> ret collected
        | Some c \<Rightarrow>
            if c = [] then ret collected
            else
              (let collected = AList.update (cps ''crawler_data'') (PDict c) collected
               in case map_of collected (cps ''offering'') of
                    None \<Rightarrow> ret collected
                  | Some (PDict offering) \<Rightarrow>
                      ret (AList.update (cps ''offering'')
                             (PDict (merge_offering_data offering crawler_data)) collected)
                  | Some _ \<Rightarrow> ([], Raises TypeError)))"

text \<open>
  Iterating over the value stored under \<open>'filing_financials'\<close> and calling \<open>item.get\<close>
  on each element, as the first loop of \<open>_convert_filing_financials\<close> does.
\<close>

definition as_dict :: "pyval \<Rightarrow> pydict option" where
  "as_dict v = (case v of PDict d \<Rightarrow> Some d | _ \<Rightarrow> None)"

definition iter_rows :: "pyval \<Rightarrow> exn + pydict list" where
  "iter_rows v =
     (case v of
        PList xs \<Rightarrow>
          if list_all (\<lambda>x. as_dict x \<noteq> None) xs then Inr (List.map_filter as_dict xs)
          else Inl AttributeError
      | PDict d \<Rightarrow> if d = [] then Inr [] else Inl AttributeError
      | PStr s \<Rightarrow> if s = [] then Inr [] else Inl AttributeError
      | _ \<Rightarrow> Inl TypeError)"

text \<open>
  The block of step 4 after \<open>collected.update(parsed)\<close>: the financial statements
  read from the filing become \<open>collected['financials']\<close> when DART gave none.
\<close>

definition integrate_filing :: "world \<Rightarrow> bool \<Rightarrow> pydict \<Rightarrow> pydict \<Rightarrow> pydict run" where
  "integrate_filing W has_financials collected parsed =
     (let collected = fold (\<lambda>(k, v). AList.update k v) parsed collected
      in if \<not> has_financials \<and> map_of collected (cps ''filing_financials'') \<noteq> None
         then
           run_bind (of_exn (iter_rows (dict_get collected (cps ''filing_financials''))))
             (\<lambda>fin_from_filing.
           run_bind (of_exn (convert_filing_financials (py_render W) fin_from_filing))
             (\<lambda>fin_summary.
           if fin_summary \<noteq> [] then
             run_bind (of_exn (rows_print fin_summary)) (\<lambda>_.
             ret (AList.update (cps ''financials'') (PList (map PDict fin_summary))
                    collected))
           else ret collected))
         else ret collected)"

definition step_4 :: "world \<Rightarrow> unicode \<Rightarrow> bool \<Rightarrow> pystr option \<Rightarrow> pydict \<Rightarrow> pydict run" where
  "step_4 W U skip_filing rcept collected =
     (let has_financials = truthy (dict_get collected (cps ''financials''))
      in case rcept of
           None \<Rightarrow> ret collected
         | Some r \<Rightarrow>
             if skip_filing \<or> r = [] then ret collected
             else
               run_bind (of_exn (download_document W r)) (\<lambda>filing_dir.
               case filing_dir of
                 None \<Rightarrow> ret collected
               | Some dir \<Rightarrow>
                   run_bind (parse_full_filing W U dir (\<not> has_financials))
                     (integrate_filing W has_financials collected)))"

subsection \<open>output/report_writer.py: save_report\<close>

text \<open>
  The writers are modelled for what they raise and in which order they reach the file
  system and the library; the text they write is not modelled. \<open>v.get(k, d)\<close> raises
  \<open>AttributeError\<close> on a value that is not a dictionary. A \<open>for\<close> loop runs over the
  items of a list, the keys of a dictionary and the characters of a string, and raises
  \<open>TypeError\<close> on any other value.
\<close>

definition py_get :: "pyval \<Rightarrow> pystr \<Rightarrow> pyval \<Rightarrow> exn + pyval" where
  "py_get v k d =
     (case v of
        PDict al \<Rightarrow> Inr (case map_of al k of Some x \<Rightarrow> x | None \<Rightarrow> d)
      | _ \<Rightarrow> Inl AttributeError)"

definition py_iter :: "pyval \<Rightarrow> exn + pyval list" where
  "py_iter v =
     (case v of
        PList xs \<Rightarrow> Inr xs
      | PDict al \<Rightarrow> Inr (map (\<lambda>(k, _). PStr k) al)
      | PStr s \<Rightarrow> Inr (map (\<lambda>c. PStr [c]) s)
      | _ \<Rightarrow> Inl TypeError)"

text \<open>
  \<open>int(val)\<close>: a float is truncated towards zero, an infinity raises \<open>OverflowError\<close>
  and a NaN \<open>ValueError\<close>; a string is parsed; anything else raises \<open>TypeError\<close>.
\<close>

definition py_int_of :: "(pystr \<Rightarrow> int option) \<Rightarrow> pyval \<Rightarrow> exn + int" where
  "py_int_of parse v =
     (case v of
        PBool b \<Rightarrow> Inr (if b then 1 else 0)
      | PInt i \<Rightarrow> Inr i
      | PFloat x \<Rightarrow>
          (case x of
             Finite r \<Rightarrow> Inr (if 0 \<le> r then \<lfloor>r\<rfloor> else \<lceil>r\<rceil>)
           | NegZero \<Rightarrow> Inr 0
           | NaN \<Rightarrow> Inl ValueError
           | _ \<Rightarrow> Inl OverflowError)
      | PStr s \<Rightarrow> (case parse s of Some i \<Rightarrow> Inr i | None \<Rightarrow> Inl ValueError)
      | _ \<Rightarrow> Inl TypeError)"

text \<open>
  \<open>_fmt_num\<close>: \<open>None\<close> gives a dash; \<open>ValueError\<close> and \<open>TypeError\<close> are caught and
  give \<open>str(val)\<close>; an \<open>OverflowError\<close>, of \<open>int(val)\<close> or of the division, is not
  caught.
\<close>

definition fmt_num :: "(pystr \<Rightarrow> int option) \<Rightarrow> pyval \<Rightarrow> exn + unit" where
  "fmt_num parse val =
     (if val = PNone then Inr ()
      else case py_int_of parse val of
             Inl e \<Rightarrow> if e = ValueError \<or> e = TypeError then Inr () else Inl e
           | Inr v \<Rightarrow>
               if \<bar>v\<bar> \<ge> 100000000 then bind_exn (int_truediv v 100000000) (\<lambda>_. Inr ())
               else if \<bar>v\<bar> \<ge> 10000 then bind_exn (int_truediv v 10000) (\<lambda>_. Inr ())
               else Inr ())"

text \<open>\<open>_fmt_shares\<close>: \<open>f"{int(val):,}"\<close> in the same \<open>try\<close>.\<close>

definition fmt_shares :: "(pystr \<Rightarrow> int option) \<Rightarrow> pyval \<Rightarrow> exn + unit" where
  "fmt_shares parse val =
     (if val = PNone then Inr ()
      else case py_int_of parse val of
             Inl e \<Rightarrow> if e = ValueError \<or> e = TypeError then Inr () else Inl e
           | Inr v \<Rightarrow> Inr ())"

text \<open>
  \<open>_fmt_pct\<close>: \<open>float(val)\<close> raises \<open>OverflowError\<close> on an integer too large for a
  float; on a string or any other value it returns or raises what is caught; the product
  with 100 and the format do not raise.
\<close>

definition fmt_pct :: "pyval \<Rightarrow> exn + unit" where
  "fmt_pct val =
     (if val = PNone then Inr ()
      else case int_val val of
             Some i \<Rightarrow> bind_exn (int_to_float i) (\<lambda>_. Inr ())
           | None \<Rightarrow> Inr ())"

text \<open>
  One line of each table of the appendix. The fields of the f-string are evaluated from
  left to right; \<open>{row.get('year', '')}\<close> formats any value.
\<close>

definition report_row :: "(pystr \<Rightarrow> int option) \<Rightarrow> pyval \<Rightarrow> exn + unit" where
  "report_row parse row =
     bind_exn (py_get row (cps ''year'') (PStr [])) (\<lambda>_.
     each (\<lambda>k. bind_exn (py_get row k PNone) (fmt_num parse))
       (map cps [''revenue'', ''operating_income'', ''net_income'', ''total_assets'',
                 ''total_liabilities'']))"

definition lockup_row :: "(pystr \<Rightarrow> int option) \<Rightarrow> pyval \<Rightarrow> exn + unit" where
  "lockup_row parse item =
     bind_exn (py_get item (cps ''period'') (PStr [])) (\<lambda>_.
     bind_exn (bind_exn (py_get item (cps ''shares'') PNone) (fmt_shares parse)) (\<lambda>_.
     bind_exn (bind_exn (py_get item (cps ''ratio'') PNone) fmt_pct) (\<lambda>_.
     bind_exn (py_get item (cps ''cumulative_ratio'') PNone) fmt_pct)))"

text \<open>
  \<open>if "financials" in data and data["financials"]: for row in data["financials"]: ...\<close>
  and the same for \<open>"lockup_schedule"\<close>.
\<close>

definition table_of :: "pydict \<Rightarrow> pystr \<Rightarrow> (pyval \<Rightarrow> exn + unit) \<Rightarrow> exn + unit" where
  "table_of data key line =
     (if truthy (dict_get data key) then bind_exn (py_iter (dict_get data key)) (each line)
      else Inr ())"

definition save_report :: "world \<Rightarrow> pystr \<Rightarrow> pystr \<Rightarrow> pydict \<Rightarrow> exn + unit" where
  "save_report W company_name analysis_report data =
     bind_exn (mkdir_reports W Report) (\<lambda>_.
     bind_exn (table_of data (cps ''financials'') (report_row (py_int W))) (\<lambda>_.
     bind_exn (table_of data (cps ''lockup_schedule'') (lockup_row (py_int W))) (\<lambda>_.
     write_report W company_name analysis_report data)))"

subsection \<open>output/excel_writer.py: generate_excel\<close>

text \<open>
  \<open>securities[0]\<close>, which the source evaluates on a true value only: the first item of
  a list, the first character of a string; a dictionary of the data has no key \<open>0\<close>, and
  a number has no items.
\<close>

definition py_first :: "pyval \<Rightarrow> exn + pyval" where
  "py_first v =
     (case v of
        PList (x # _) \<Rightarrow> Inr x
      | PStr (c # _) \<Rightarrow> Inr (PStr [c])
      | PDict _ \<Rightarrow> Inl KeyError
      | _ \<Rightarrow> Inl TypeError)"

text \<open>The values of a list literal of \<open>.get\<close> calls, read before any of them is written.\<close>

fun get_all :: "(pyval \<times> pystr \<times> pyval) list \<Rightarrow> exn + pyval list" where
  "get_all [] = Inr []"
| "get_all ((obj, k, d) # rest) =
     bind_exn (py_get obj k d) (\<lambda>v.
     bind_exn (get_all rest) (\<lambda>vs.
     Inr (v # vs)))"

text \<open>The statements \<open>ws.cell(..., value=obj.get(k, d))\<close> of one row, one after the other.\<close>

definition row_cells ::
    "(pyval \<Rightarrow> exn + unit) \<Rightarrow> pyval \<Rightarrow> (pystr \<times> pyval) list \<Rightarrow> exn + unit" where
  "row_cells cell obj keys = each (\<lambda>(k, d). bind_exn (py_get obj k d) cell) keys"

text \<open>
  \<open>_extract_opinion\<close>: the lines from the first one that holds one of three headings to
  the end, or the last 2000 characters when there is none.
\<close>

fun split_on :: "nat \<Rightarrow> pystr \<Rightarrow> pystr list" where
  "split_on c [] = [[]]"
| "split_on c (x # xs) =
     (if x = c then [] # split_on c xs
      else (case split_on c xs of l # ls \<Rightarrow> (x # l) # ls | [] \<Rightarrow> [[x]]))"

fun join_with :: "pystr \<Rightarrow> pystr list \<Rightarrow> pystr" where
  "join_with sep [] = []"
| "join_with sep [l] = l"
| "join_with sep (l # ls) = l @ sep @ join_with sep ls"

definition opinion_headings :: "pystr list" where
  "opinion_headings =
     [[51333, 54633, 32, 51032, 44204], [51333, 54633, 51032, 44204],
      [54645, 49900, 32, 52404, 53356]]"

definition extract_opinion :: "pystr \<Rightarrow> pystr" where
  "extract_opinion report =
     (let result = dropWhile (\<lambda>line. \<not> list_ex (\<lambda>h. py_in h line) opinion_headings)
                     (split_on 10 report)
      in if result \<noteq> [] then join_with [10] result
         else drop (length report - 2000) report)"

text \<open>The sections of the sheet, in the order of the source.\<close>

definition sheet_schedule :: "(pyval \<Rightarrow> exn + unit) \<Rightarrow> pyval \<Rightarrow> pyval \<Rightarrow> exn + unit" where
  "sheet_schedule cell offering crawler =
     bind_exn (py_get crawler (cps ''demand_forecast_date'') (PStr [])) (\<lambda>forecast.
     bind_exn (py_get offering (cps ''subscription_date'') (PStr [])) (\<lambda>sub.
     bind_exn (if truthy sub then Inr sub
               else py_get crawler (cps ''subscription_date'') (PStr [])) (\<lambda>subscription.
     bind_exn (get_all [(offering, cps ''payment_date'', PStr []),
                        (crawler, cps ''listing_date'', PStr []),
                        (crawler, cps ''lead_underwriter'', PStr [])]) (\<lambda>vals.
     each cell (forecast # subscription # vals)))))"

definition sheet_offering :: "(pyval \<Rightarrow> exn + unit) \<Rightarrow> pyval \<Rightarrow> pyval \<Rightarrow> exn + unit" where
  "sheet_offering cell offering crawler =
     bind_exn (py_get offering (cps ''securities'') (PList [PDict []])) (\<lambda>securities.
     bind_exn (if truthy securities then py_first securities else Inr (PDict [])) (\<lambda>sec.
     bind_exn (get_all [(sec, cps ''count'', PNone),
                        (sec, cps ''face_value'', PNone),
                        (crawler, cps ''confirmed_price'', PStr []),
                        (offering, cps ''crawler_offering_price_range'', PStr []),
                        (sec, cps ''total_amount'', PNone),
                        (sec, cps ''method'', PStr [])]) (\<lambda>vals.
     bind_exn (each cell vals) (\<lambda>_.
     bind_exn (py_get offering (cps ''underwriters'') (PList [])) (\<lambda>underwriters.
     if truthy underwriters
     then bind_exn (py_iter underwriters)
            (each (\<lambda>uw. row_cells cell uw
               [(cps ''name'', PStr []), (cps ''count'', PNone), (cps ''amount'', PNone)]))
     else Inr ())))))"

definition sheet_demand :: "(pyval \<Rightarrow> exn + unit) \<Rightarrow> pyval \<Rightarrow> exn + unit" where
  "sheet_demand cell crawler =
     (if truthy crawler
      then bind_exn (get_all [(crawler, cps ''institutional_competition'', PStr []),
                              (crawler, cps ''lockup_commitment'', PStr []),
                              (crawler, cps ''institutional_allocation'', PStr []),
                              (crawler, cps ''retail_allocation'', PStr [])]) (\<lambda>vals.
           each cell (filter truthy vals))
      else Inr ())"

definition sheet_lockup :: "(pyval \<Rightarrow> exn + unit) \<Rightarrow> pyval \<Rightarrow> exn + unit" where
  "sheet_lockup cell lockup =
     (if truthy lockup
      then bind_exn (py_iter lockup)
             (each (\<lambda>item. row_cells cell item
                [(cps ''period'', PStr []), (cps ''shares'', PNone), (cps ''ratio'', PNone),
                 (cps ''cumulative_ratio'', PNone)]))
      else Inr ())"

text \<open>
  The financial table: the row of years, one row for each of six accounts, and the row of
  growth rates, where a \<open>None\<close> is not written.
\<close>

definition sheet_financials :: "(pyval \<Rightarrow> exn + unit) \<Rightarrow> pyval \<Rightarrow> exn + unit" where
  "sheet_financials cell financials =
     (if truthy financials
      then bind_exn (py_iter financials) (\<lambda>rows.
           bind_exn (get_all (map (\<lambda>f. (f, cps ''year'', PStr [])) rows)) (\<lambda>years.
           bind_exn (each cell years) (\<lambda>_.
           bind_exn (each (\<lambda>field. each (\<lambda>f. bind_exn (py_get f field PNone) cell) rows)
                       (map cps [''total_assets'', ''total_liabilities'', ''total_equity'',
                                 ''revenue'', ''operating_income'', ''net_income''])) (\<lambda>_.
           each (\<lambda>f. bind_exn (py_get f (cps ''revenue_yoy'') PNone) (\<lambda>yoy.
                       if yoy \<noteq> PNone then cell yoy else Inr ())) rows))))
      else Inr ())"

definition sheet_valuation :: "(pyval \<Rightarrow> exn + unit) \<Rightarrow> pyval \<Rightarrow> exn + unit" where
  "sheet_valuation cell valuation =
     (if truthy valuation
      then bind_exn (get_all [(valuation, cps ''valuation_method'', PStr []),
                              (valuation, cps ''base_metric'', PStr []),
                              (valuation, cps ''base_value'', PNone),
                              (valuation, cps ''discount_rate'', PNone),
                              (valuation, cps ''applied_multiple'', PNone),
                              (valuation, cps ''per_share_value'', PNone)]) (\<lambda>vals.
           bind_exn (each cell vals) (\<lambda>_.
           bind_exn (py_get valuation (cps ''average_peer_per'') PNone) (\<lambda>avg_per.
           bind_exn (if truthy avg_per then cell avg_per else Inr ()) (\<lambda>_.
           bind_exn (py_get valuation (cps ''peers'') (PList [])) (\<lambda>peers.
           if truthy peers
           then bind_exn (py_iter peers)
                  (each (\<lambda>peer. row_cells cell peer
                     [(cps ''name'', PStr []), (cps ''market'', PStr []),
                      (cps ''revenue'', PNone), (cps ''net_income'', PNone),
                      (cps ''market_cap'', PNone), (cps ''share_price'', PNone),
                      (cps ''per'', PNone), (cps ''ev_ebitda'', PNone)]))
           else Inr ())))))
      else Inr ())"

text \<open>\<open>report.split\<close> raises \<open>AttributeError\<close> on a value that is not a string.\<close>

definition sheet_opinion :: "(pyval \<Rightarrow> exn + unit) \<Rightarrow> pyval \<Rightarrow> exn + unit" where
  "sheet_opinion cell analysis =
     (if truthy analysis
      then (case analysis of
              PStr report \<Rightarrow> cell (PStr (extract_opinion report))
            | _ \<Rightarrow> Inl AttributeError)
      else Inr ())"

definition data_get :: "pydict \<Rightarrow> pystr \<Rightarrow> pyval \<Rightarrow> pyval" where
  "data_get data k d = (case map_of data k of Some v \<Rightarrow> v | None \<Rightarrow> d)"

definition generate_excel :: "world \<Rightarrow> pydict \<Rightarrow> pystr \<Rightarrow> exn + unit" where
  "generate_excel W data company_name =
     (let cell = cell_value W;
          offering = data_get data (cps ''offering'') (PDict []);
          crawler = data_get data (cps ''crawler_data'') (PDict [])
      in
      bind_exn (mkdir_reports W Excel) (\<lambda>_.
      bind_exn (sheet_title W company_name) (\<lambda>_.
      bind_exn (cell (PStr company_name)) (\<lambda>_.
      bind_exn (sheet_schedule cell offering crawler) (\<lambda>_.
      bind_exn (sheet_offering cell offering crawler) (\<lambda>_.
      bind_exn (sheet_demand cell crawler) (\<lambda>_.
      bind_exn (sheet_lockup cell (data_get data (cps ''lockup_schedule'') (PList []))) (\<lambda>_.
      bind_exn (sheet_financials cell (data_get data (cps ''financials'') (PList []))) (\<lambda>_.
      bind_exn (sheet_valuation cell (data_get data (cps ''valuation'') (PDict []))) (\<lambda>_.
      bind_exn (sheet_opinion cell (data_get data (cps ''analysis_report'') (PStr []))) (\<lambda>_.
      save_workbook W company_name)))))))))))"

subsection \<open>main.py: save_raw_data\<close>

text \<open>The collected data without the analysis report, which has its own file.\<close>

definition save_raw_data :: "world \<Rightarrow> pydict \<Rightarrow> pystr \<Rightarrow> exn + unit" where
  "save_raw_data W data company_name =
     bind_exn (mkdir_reports W Json) (\<lambda>_.
     write_json W company_name (filter (\<lambda>(k, v). k \<noteq> cps ''analysis_report'') data))"

text \<open>
  Step 5: the analysis report, empty when the analysis is skipped.
\<close>

definition step_5 :: "world \<Rightarrow> pystr \<Rightarrow> bool \<Rightarrow> pydict \<Rightarrow> (pydict \<times> pystr) run" where
  "step_5 W company_name skip_analysis collected =
     (if \<not> skip_analysis then
        run_bind (generate_analysis W collected company_name) (\<lambda>analysis_report.
        ret (AList.update (cps ''analysis_report'') (PStr analysis_report) collected,
             analysis_report))
      else ret (collected, []))"

text \<open>
  Step 6: the three writers, in the order of the source. The event of a writer is recorded
  when the writer returns; a writer that raises ends the run.
\<close>

definition step_6 :: "world \<Rightarrow> pystr \<Rightarrow> pydict \<Rightarrow> pystr \<Rightarrow> pydict run" where
  "step_6 W company_name collected analysis_report =
     run_bind
       (if analysis_report \<noteq> [] then
          run_bind (of_exn (save_report W company_name analysis_report collected)) (\<lambda>_.
          emit Saved_report)
        else ret ())
       (\<lambda>_.
     run_bind (of_exn (generate_excel W collected company_name)) (\<lambda>_.
     run_bind (emit Saved_excel) (\<lambda>_.
     run_bind (of_exn (save_raw_data W collected company_name)) (\<lambda>_.
     run_bind (emit Saved_json) (\<lambda>_.
     ret collected)))))"

definition step_5_6 :: "world \<Rightarrow> pystr \<Rightarrow> bool \<Rightarrow> pydict \<Rightarrow> pydict run" where
  "step_5_6 W company_name skip_analysis collected =
     run_bind (step_5 W company_name skip_analysis collected) (\<lambda>(collected, analysis_report).
     step_6 W company_name collected analysis_report)"

definition steps_1_to_4 ::
    "world \<Rightarrow> unicode \<Rightarrow> pystr \<Rightarrow> bool \<Rightarrow> pydict option run" where
  "steps_1_to_4 W U company_name skip_filing =
     run_bind (of_exn (search_corp_code W company_name)) (\<lambda>corp.
     case corp of
       None \<Rightarrow> ret None
     | Some corp_code \<Rightarrow>
         run_bind (step_2 W corp_code) (\<lambda>(collected, rcept).
         run_bind (step_3 W company_name collected) (\<lambda>collected.
         run_bind (step_4 W U skip_filing rcept collected) (\<lambda>collected.
         ret (Some collected)))))"

text \<open>
  \<open>run_pipeline\<close> returns \<open>None\<close> when the company is not found, and the collected
  data after step 6 otherwise.
\<close>

definition run_pipeline ::
    "world \<Rightarrow> unicode \<Rightarrow> pystr \<Rightarrow> bool \<Rightarrow> bool \<Rightarrow> pydict option run" where
  "run_pipeline W U company_name skip_filing skip_analysis =
     run_bind (steps_1_to_4 W U company_name skip_filing) (\<lambda>reached.
     case reached of
       None \<Rightarrow> ret None
     | Some collected \<Rightarrow>
         run_bind (step_5_6 W company_name skip_analysis collected) (\<lambda>collected.
         ret (Some collected)))"



section \<open>Specification predicates\<close>

text \<open>
  What the \<open>'<field>_yoy'\<close> entry of a row must be after \<open>calc_growth_rates\<close>, given
  the previous row and the row as they were before: the growth rate when both values are
  true in Python's sense (present and not zero), the row's former entry otherwise.
\<close>

definition yoy_entry_ok :: "pydict \<Rightarrow> pydict \<Rightarrow> pystr \<Rightarrow> pyval option \<Rightarrow> bool" where
  "yoy_entry_ok prev cur f entry =
     (if truthy (dict_get prev f) \<and> truthy (dict_get cur f)
      then \<exists>q. growth_rate (dict_get prev f) (dict_get cur f) = Inr q \<and> entry = Some q
      else entry = map_of cur (yoy_key f))"

text \<open>
  A value that is a number where it is true at all, with an integer below \<open>2 ^ 1023\<close> in
  absolute value; and a row whose growth fields hold such values.
\<close>

definition float_sized :: "pyval \<Rightarrow> bool" where
  "float_sized v =
     ((truthy v \<longrightarrow> is_number v)
      \<and> (case int_val v of Some i \<Rightarrow> \<bar>i\<bar> < 2 ^ 1023 | None \<Rightarrow> True))"

definition numeric_fields :: "pydict \<Rightarrow> bool" where
  "numeric_fields r = list_all (\<lambda>f. float_sized (dict_get r f)) growth_fields"

text \<open>
  The claim about \<open>_extract_section\<close> in its own words, to be compared with the loops of
  the source. The first offset where a pattern matches:
\<close>

definition first_match :: "unicode \<Rightarrow> rx list \<Rightarrow> pystr \<Rightarrow> nat option" where
  "first_match U p html = find (\<lambda>i. rx_match U p (drop i html)) [0..<Suc (length html)]"

text \<open>
  The occurrences of \<open>sub\<close> that the text scan visits, from the left: an occurrence is
  taken unless it starts within \<open>klen\<close> characters of the start of the one taken before.
  \<open>i\<close> is the offset of the text that is left and \<open>skip\<close> the number of offsets still
  to pass over.
\<close>

fun occurrences :: "pystr \<Rightarrow> nat \<Rightarrow> pystr \<Rightarrow> nat \<Rightarrow> nat \<Rightarrow> nat list" where
  "occurrences sub klen [] i skip = (if skip = 0 \<and> sub = [] then [i] else [])"
| "occurrences sub klen (x # xs) i skip =
     (if skip = 0 \<and> prefix sub (x # xs) then i # occurrences sub klen xs (Suc i) (klen - 1)
      else occurrences sub klen xs (Suc i) (skip - 1))"

text \<open>
  The slice around an occurrence at \<open>i\<close>: from 200 characters before it to \<open>m\<close>
  characters after its start.
\<close>

definition slice_around :: "pystr \<Rightarrow> nat \<Rightarrow> nat \<Rightarrow> pystr" where
  "slice_around html m i = take (i + m - (i - 200)) (drop (i - 200) html)"

definition candidates :: "unicode \<Rightarrow> pystr \<Rightarrow> pystr \<Rightarrow> nat \<Rightarrow> pystr list" where
  "candidates U html kw m =
     map (slice_around html m)
       (occurrences (str_lower U kw) (length kw) (str_lower U html) 0 0)"

definition best_score_of :: "unicode \<Rightarrow> pystr list \<Rightarrow> int" where
  "best_score_of U cs = Max (set (0 # map (section_score U) cs))"

definition best_slice_of :: "unicode \<Rightarrow> pystr list \<Rightarrow> pystr" where
  "best_slice_of U cs =
     (case find (\<lambda>s. section_score U s = best_score_of U cs) cs of
        Some s \<Rightarrow> s
      | None \<Rightarrow> [])"

definition spec_extract_section :: "unicode \<Rightarrow> pystr \<Rightarrow> pystr list \<Rightarrow> nat \<Rightarrow> pystr" where
  "spec_extract_section U html keywords m =
     (case find (\<lambda>kw. first_match U (title_pattern kw) html \<noteq> None) keywords of
        Some kw \<Rightarrow>
          (case first_match U (title_pattern kw) html of
             Some i \<Rightarrow> take m (drop i html)
           | None \<Rightarrow> [])
      | None \<Rightarrow>
          (case find (\<lambda>kw. best_score_of U (candidates U html kw m) > 10) keywords of
             Some kw \<Rightarrow> best_slice_of U (candidates U html kw m)
           | None \<Rightarrow> []))"

text \<open>The occurrences visited from \<open>start_pos\<close> on.\<close>

definition occs_from :: "pystr \<Rightarrow> nat \<Rightarrow> pystr \<Rightarrow> nat \<Rightarrow> nat list" where
  "occs_from sub klen hl start =
     (if start \<le> length hl then occurrences sub klen (drop start hl) start 0 else [])"

text \<open>One step of keeping the best slice: a slice replaces the best so far only with a strictly higher score.\<close>

definition best_step :: "unicode \<Rightarrow> pystr \<Rightarrow> pystr \<times> int \<Rightarrow> pystr \<times> int" where
  "best_step U s acc = (if section_score U s > snd acc then (s, section_score U s) else acc)"

text \<open>A table for ASCII text, for the concrete examples.\<close>

definition ascii_lower :: "nat \<Rightarrow> nat" where
  "ascii_lower c = (if 65 \<le> c \<and> c \<le> 90 then c + 32 else c)"

definition ascii_unicode :: unicode where
  "ascii_unicode =
     \<lparr>str_lower = map ascii_lower,
      ci_match = (\<lambda>p c. ascii_lower p = ascii_lower c),
      is_digit = (\<lambda>c. 48 \<le> c \<and> c \<le> 57)\<rparr>"

text \<open>
  The claim about \<open>load_filing_html\<close> in its own words: the files that can be read in
  one of the two encodings, each with its text, joined in the order given.
\<close>

definition readable :: "pyfile \<Rightarrow> bool" where
  "readable f =
     (case read_utf8 f of
        Inr _ \<Rightarrow> True
      | Inl _ \<Rightarrow> (case read_euckr f of Inr _ \<Rightarrow> True | Inl _ \<Rightarrow> False))"

definition file_text :: "pyfile \<Rightarrow> pystr" where
  "file_text f =
     (case read_utf8 f of
        Inr content \<Rightarrow> content
      | Inl _ \<Rightarrow> (case read_euckr f of Inr content \<Rightarrow> content | Inl _ \<Rightarrow> []))"

definition joined_files :: "pyfile list \<Rightarrow> pystr" where
  "joined_files fs = concat (map (\<lambda>f. file_chunk (fname f) (file_text f)) (filter readable fs))"

text \<open>Two example directories: one with \<open>b.html\<close> and \<open>a.htm\<close>, one with a text file only.\<close>

definition ex_dir :: directory where
  "ex_dir =
     [\<lparr>fname = cps ''b.html'', read_utf8 = Inr (cps ''B''), read_euckr = Inl (Failure 0)\<rparr>,
      \<lparr>fname = cps ''a.htm'', read_utf8 = Inr (cps ''A''), read_euckr = Inl (Failure 0)\<rparr>]"

definition ex_dir_txt :: directory where
  "ex_dir_txt =
     [\<lparr>fname = cps ''notes.txt'', read_utf8 = Inr (cps ''N''), read_euckr = Inl (Failure 0)\<rparr>]"

text \<open>
  An example world: the company is found, DART has one registration statement and no
  financial statements, the crawler finds nothing, and the filing is one XML file whose
  \<open>TITLE\<close> tags hold the first keyword of each of the six keyword lists. The model
  answers with an empty text, in which no JSON is found.
\<close>

definition title_tag :: "pystr \<Rightarrow> pystr" where
  "title_tag kw = cps ''<TITLE>'' @ kw @ cps ''</TITLE>''"

definition demo_content :: pystr where
  "demo_content =
     concat (map (\<lambda>keywords. title_tag (hd keywords))
       [lockup_keywords, business_keywords, valuation_keywords, peer_keywords, per_keywords,
        financial_keywords])"

definition demo_dir :: directory where
  "demo_dir =
     [\<lparr>fname = cps ''filing.xml'', read_utf8 = Inr demo_content, read_euckr = Inl (Failure 0)\<rparr>]"

definition demo_world :: world where
  "demo_world =
     \<lparr>search_corp_code = (\<lambda>_. Inr (Some (cps ''00123456''))),
      get_company_info = (\<lambda>_. Inr None),
      search_filings = (\<lambda>_. Inr [\<lparr>report_nm = kw_registration, rcept_no = cps ''20250101000001''\<rparr>]),
      equity_offering = (\<lambda>_. Inr None),
      financial_summary = (\<lambda>_. Inr []),
      search_38 = (\<lambda>_. Inr None),
      download_document = (\<lambda>_. Inr (Some demo_dir)),
      call_llm = (\<lambda>_ _. Inr []),
      extract_json = (\<lambda>_. PNone),
      analysis_llm = (\<lambda>_ _. Inr (cps ''report'')),
      py_render = (\<lambda>_. []),
      py_int = (\<lambda>_. None),
      mkdir_reports = (\<lambda>_. Inr ()),
      write_report = (\<lambda>_ _ _. Inr ()),
      sheet_title = (\<lambda>_. Inr ()),
      cell_value = (\<lambda>_. Inr ()),
      save_workbook = (\<lambda>_. Inr ()),
      write_json = (\<lambda>_ _. Inr ())\<rparr>"

text \<open>The example world with a crawler that fails, and with a filing without files.\<close>

definition crawl_failure_world :: world where
  "crawl_failure_world = demo_world\<lparr>search_38 := \<lambda>_. Inl (Failure 38)\<rparr>"

definition empty_filing_world :: world where
  "empty_filing_world = demo_world\<lparr>download_document := \<lambda>_. Inr (Some [])\<rparr>"




text \<open>A section is located when \<open>_extract_section\<close> returns a non-empty string.\<close>

definition located :: "unicode \<Rightarrow> pystr \<Rightarrow> pystr list \<Rightarrow> int \<Rightarrow> bool" where
  "located U html keywords max_chars =
     (case extract_section U html keywords max_chars of Some s \<Rightarrow> s \<noteq> [] | None \<Rightarrow> False)"

definition sections_located :: "unicode \<Rightarrow> pystr \<Rightarrow> bool" where
  "sections_located U html =
     (located U html lockup_keywords 15000 \<and> located U html business_keywords 20000 \<and>
      located U html valuation_keywords 20000 \<and> located U html peer_keywords 25000 \<and>
      located U html per_keywords 15000 \<and> located U html financial_keywords 25000)"

fun is_llm :: "event \<Rightarrow> bool" where
  "is_llm (LLM_call p) = True"
| "is_llm _ = False"

fun is_output :: "event \<Rightarrow> bool" where
  "is_output Saved_report = True"
| "is_output Saved_excel = True"
| "is_output Saved_json = True"
| "is_output _ = False"

section \<open>Properties\<close>

lemma cps_eq_iff [simp]: "cps s = cps t \<longleftrightarrow> s = t"
  unfolding cps_def by (simp add: inj_map_eq_map inj_on_def)

lemma length_cps [simp]: "length (cps s) = length s"
  by (simp add: cps_def)

lemma cps_Nil [simp]: "cps s = [] \<longleftrightarrow> s = []"
  by (simp add: cps_def)

lemma cps_append_cps [simp]: "cps a @ cps b = cps (a @ b)"
  by (simp add: cps_def)



lemma crawler_key_inj [simp]: "crawler_key f = crawler_key g \<longleftrightarrow> f = g"
  by (simp add: crawler_key_def)

lemma drop_crawler_key [simp]: "drop 8 (crawler_key f) = f"
  by (simp add: crawler_key_def)

lemma truthy_dict_get:
  "truthy (dict_get c f) \<longleftrightarrow> (\<exists>v. map_of c f = Some v \<and> truthy v)"
  by (simp add: dict_get_def split: option.splits)

lemma map_of_merge_field:
  "map_of (merge_field c f m) k =
     (if k = crawler_key f \<and> truthy (dict_get c f) then Some (dict_get c f) else map_of m k)"
  by (auto simp: merge_field_def dict_get_def update_conv' split: option.splits)

lemma map_of_fold_merge_field:
  "distinct fs \<Longrightarrow> map_of (fold (merge_field c) fs m) k =
     (if k \<in> crawler_key ` set fs \<and> truthy (dict_get c (drop 8 k))
      then Some (dict_get c (drop 8 k)) else map_of m k)"
proof (induction fs arbitrary: m)
  case Nil
  then show ?case by simp
next
  case (Cons f fs)
  then show ?case
    by (auto simp: map_of_merge_field)
qed

lemma distinct_extra_fields: "distinct extra_fields"
  by (simp add: extra_fields_def)

lemma map_of_merge_offering_data:
  "map_of (merge_offering_data d c) k =
     (case c of
        None \<Rightarrow> map_of d k
      | Some cd \<Rightarrow>
          if k \<in> crawler_key ` set extra_fields \<and> truthy (dict_get cd (drop 8 k))
          then Some (dict_get cd (drop 8 k)) else map_of d k)"
  by (auto simp: merge_offering_data_def map_of_fold_merge_field distinct_extra_fields
      dict_get_def split: option.splits)

text \<open>
  Claim C8, as amended. \<open>merge_offering_data\<close> leaves every key of \<open>dart_data\<close> at its
  value except a key \<open>'crawler_' + field\<close> for one of the twelve fields whose crawler value
  is true in Python's sense; such a key, whether \<open>dart_data\<close> had it or not, holds the
  crawler's value afterwards. No other key is added, and with \<open>crawler_data\<close> \<open>None\<close>
  the output is \<open>dart_data\<close>.
\<close>

theorem merge_offering_data_frame:
  "map_of (merge_offering_data d c) k =
     (case c of
        None \<Rightarrow> map_of d k
      | Some cd \<Rightarrow>
          if k \<in> crawler_key ` set extra_fields \<and> truthy (dict_get cd (drop 8 k))
          then Some (dict_get cd (drop 8 k)) else map_of d k)
   \<and> merge_offering_data d None = d"
  by (simp add: map_of_merge_offering_data) (simp add: merge_offering_data_def)

text \<open>
  Claim C8 as stated fails: a \<open>dart_data\<close> that already holds the key
  \<open>'crawler_confirmed_price'\<close> loses its value to the crawler's \<open>confirmed_price\<close>.
\<close>

theorem merge_offering_data_counterexample:
  "\<not> (\<forall>d c k v. map_of d k = Some v \<longrightarrow> map_of (merge_offering_data d c) k = Some v)"
proof
  assume h: "\<forall>d c k v. map_of d k = Some v \<longrightarrow> map_of (merge_offering_data d c) k = Some v"
  have "map_of [(cps ''crawler_confirmed_price'', PInt 1)] (cps ''crawler_confirmed_price'') = Some (PInt 1)"
    by simp
  with h have "map_of (merge_offering_data [(cps ''crawler_confirmed_price'', PInt 1)]
      (Some [(cps ''confirmed_price'', PStr (cps ''5000''))])) (cps ''crawler_confirmed_price'') = Some (PInt 1)"
    by blast
  then show False
    by (simp add: merge_offering_data_def extra_fields_def merge_field_def crawler_key_def)
qed

section \<open>Binary64 rounding and the operators\<close>

lemma bit_length_0 [simp]: "bit_length 0 = 0"
  by (subst bit_length.simps) simp

lemma bit_length_pos: "0 < n \<Longrightarrow> bit_length n = Suc (bit_length (n div 2))"
  by (subst bit_length.simps) simp

lemma bit_length_bounds:
  "0 < n \<Longrightarrow> 2 ^ (bit_length n - 1) \<le> n \<and> n < 2 ^ bit_length n"
proof (induction n rule: bit_length.induct)
  case (1 n)
  show ?case
  proof (cases "n div 2 = 0")
    case True
    with 1(2) have "n = 1" by (auto simp: div_eq_0_iff)
    then show ?thesis by (simp add: bit_length_pos)
  next
    case False
    with 1 have ih: "2 ^ (bit_length (n div 2) - 1) \<le> n div 2" "n div 2 < 2 ^ bit_length (n div 2)"
      by auto
    from False have pos: "0 < bit_length (n div 2)" by (subst bit_length.simps) simp
    have bl: "bit_length n = Suc (bit_length (n div 2))" using 1(2) by (subst bit_length.simps) simp
    have "2 ^ (bit_length n - 1) = 2 * 2 ^ (bit_length (n div 2) - 1)"
      using pos bl by (cases "bit_length (n div 2)") simp_all
    also have "\<dots> \<le> 2 * (n div 2)" using ih(1) by simp
    also have "\<dots> \<le> n" by simp
    finally have lo: "2 ^ (bit_length n - 1) \<le> n" .
    have "n < 2 * (n div 2) + 2" by presburger
    also have "\<dots> \<le> 2 * 2 ^ bit_length (n div 2)" using ih(2) by simp
    finally have "n < 2 ^ bit_length n" using bl by simp
    with lo show ?thesis by simp
  qed
qed

lemma pow2_pos [simp]: "0 < pow2 k"
  by (simp add: pow2_def)

lemma pow2_nat: "pow2 (int n) = 2 ^ n"
  by (simp add: pow2_def)

lemma pow2_neg: "pow2 (- int n) = 1 / 2 ^ n"
  by (cases n) (simp_all add: pow2_def nat_add_distrib)

lemma pow2_add: "pow2 (a + b) = pow2 a * pow2 b"
proof -
  have "pow2 k = 2 powi k" for k
    by (simp add: pow2_def power_int_def inverse_eq_divide power_one_over)
  then show ?thesis by (simp add: power_int_add)
qed

lemma pow2_mono: "k \<le> l \<Longrightarrow> pow2 k \<le> pow2 l"
proof -
  assume "k \<le> l"
  then obtain n where l: "l = k + int n" using zle_iff_zadd by blast
  have "1 \<le> pow2 (int n)" by (simp add: pow2_nat)
  then show ?thesis unfolding l pow2_add by simp
qed

lemma pow2_le_iff: "pow2 k \<le> pow2 l \<longleftrightarrow> k \<le> l"
proof
  assume h: "pow2 k \<le> pow2 l"
  show "k \<le> l"
  proof (rule ccontr)
    assume "\<not> k \<le> l"
    then have "l < k" by simp
    then obtain n where k: "k = l + int (Suc n)"
      using zless_iff_Suc_zadd by blast
    have "(1::rat) < 2 ^ Suc n" by (rule one_less_power) simp_all
    then have "1 < pow2 (int (Suc n))" by (simp only: pow2_nat)
    then have "pow2 l < pow2 k" unfolding k pow2_add by simp
    with h show False by simp
  qed
qed (rule pow2_mono)

lemma binade_lower:
  assumes "q \<noteq> 0"
  shows "pow2 (binade q) \<le> \<bar>q\<bar>"
proof (cases "1 \<le> \<bar>q\<bar>")
  case True
  define N where "N = nat \<lfloor>\<bar>q\<bar>\<rfloor>"
  from True have N: "0 < N" "rat_of_nat N \<le> \<bar>q\<bar>"
    unfolding N_def by (simp_all add: of_nat_nat le_floor_iff)
  from bit_length_bounds[OF N(1)] have "2 ^ (bit_length N - 1) \<le> N" by simp
  then have "rat_of_nat (2 ^ (bit_length N - 1)) \<le> rat_of_nat N"
    by (simp only: of_nat_le_iff)
  then have "(2::rat) ^ (bit_length N - 1) \<le> rat_of_nat N" by simp
  moreover have "0 < bit_length N" using N(1) by (subst bit_length.simps) simp
  then have "int (bit_length N) - 1 = int (bit_length N - 1)" by simp
  ultimately have "pow2 (int (bit_length N) - 1) \<le> rat_of_nat N"
    by (simp only: pow2_nat)
  with N(2) have "pow2 (int (bit_length N) - 1) \<le> \<bar>q\<bar>" by linarith
  with True show ?thesis by (simp add: binade_def N_def)
next
  case False
  with assms have q: "0 < \<bar>q\<bar>" "\<bar>q\<bar> < 1" by simp_all
  define m where "m = 1 / \<bar>q\<bar>"
  have m: "1 < m" using q by (simp add: m_def)
  define M where "M = nat (\<lceil>m\<rceil> - 1)"
  have c: "2 \<le> \<lceil>m\<rceil>" using m by (simp add: le_ceiling_iff)
  then have M: "0 < M" "int M + 1 = \<lceil>m\<rceil>" unfolding M_def by simp_all
  from bit_length_bounds[OF M(1)] have "M < 2 ^ bit_length M" by simp
  then have "Suc M \<le> 2 ^ bit_length M" by simp
  then have "int (Suc M) \<le> int (2 ^ bit_length M)" by (simp only: of_nat_le_iff)
  then have "int M + 1 \<le> 2 ^ bit_length M" by simp
  then have "\<lceil>m\<rceil> \<le> 2 ^ bit_length M" using M(2) by simp
  then have "m \<le> of_int (2 ^ bit_length M)" by (simp only: ceiling_le_iff)
  then have "m \<le> 2 ^ bit_length M" by simp
  then have "1 / 2 ^ bit_length M \<le> \<bar>q\<bar>"
    using q(1) unfolding m_def by (simp add: field_simps)
  then show ?thesis using False by (simp add: binade_def pow2_neg M_def m_def)
qed

lemma round_half_even_bound:
  assumes "\<bar>x\<bar> \<le> of_int N"
  shows "\<bar>round_half_even x\<bar> \<le> N"
proof -
  define f where "f = \<lfloor>x\<rfloor>"
  have f: "of_int f \<le> x" "x < of_int f + 1" unfolding f_def by linarith+
  from assms have x: "- of_int N \<le> x" "x \<le> of_int N" by linarith+
  from x(1) have lo: "- N \<le> f" unfolding f_def by (simp add: le_floor_iff)
  from f(1) x(2) have hi: "f \<le> N" using of_int_le_iff[of f N, where ?'a = rat] by linarith
  have up: "f + 1 \<le> N" if "of_int f < x"
  proof -
    from that x(2) have "(of_int f :: rat) < of_int N" by linarith
    then show ?thesis by simp
  qed
  have r: "round_half_even x = f \<or> (round_half_even x = f + 1 \<and> of_int f < x)"
    unfolding round_half_even_def Let_def f_def[symmetric] by auto
  from r lo hi up show ?thesis by auto
qed

lemma round_half_even_nonzero:
  assumes "1 \<le> \<bar>x\<bar>"
  shows "round_half_even x \<noteq> 0"
proof -
  define f where "f = \<lfloor>x\<rfloor>"
  have f: "of_int f \<le> x" "x < of_int f + 1" unfolding f_def by linarith+
  have r: "round_half_even x = f \<or> (round_half_even x = f + 1 \<and> 1 / 2 \<le> x - of_int f)"
    unfolding round_half_even_def Let_def f_def[symmetric] by auto
  show ?thesis
  proof (cases "1 \<le> x")
    case True
    then have "1 \<le> f" unfolding f_def by (simp add: le_floor_iff)
    with r show ?thesis by auto
  next
    case False
    with assms have x: "x \<le> - 1" by linarith
    with f(1) have "(of_int f :: rat) \<le> of_int (- 1)" by simp
    then have f1: "f \<le> - 1" by (simp only: of_int_le_iff)
    show ?thesis
    proof (cases "f = - 1")
      case True
      with f(1) x have "x - of_int f = 0" by simp
      with r True show ?thesis by auto
    next
      case False
      with f1 have "f \<le> - 2" by simp
      with r show ?thesis by auto
    qed
  qed
qed

lemma quantum_le:
  assumes "1 \<le> \<bar>q\<bar>"
  shows "pow2 (max (binade q - 52) (- 1074)) \<le> \<bar>q\<bar>"
proof -
  from assms have q: "q \<noteq> 0" by auto
  have "pow2 (binade q - 52) \<le> pow2 (binade q)" by (rule pow2_mono) simp
  with binade_lower[OF q] have a: "pow2 (binade q - 52) \<le> \<bar>q\<bar>" by linarith
  have "pow2 (- 1074) \<le> pow2 0" by (rule pow2_mono) simp
  then have "pow2 (- 1074) \<le> 1" by (simp add: pow2_def)
  with assms have b: "pow2 (- 1074) \<le> \<bar>q\<bar>" by linarith
  from a b show ?thesis by (simp add: max_def)
qed

lemma nearest64_nonzero:
  assumes "1 \<le> \<bar>q\<bar>"
  shows "nearest64 q \<noteq> 0"
proof -
  define u where "u = pow2 (max (binade q - 52) (- 1074))"
  have u: "0 < u" unfolding u_def by simp
  from quantum_le[OF assms] have "u \<le> \<bar>q\<bar>" unfolding u_def .
  with u have "1 \<le> \<bar>q / u\<bar>" by (simp add: field_simps)
  then have "round_half_even (q / u) \<noteq> 0" by (rule round_half_even_nonzero)
  moreover from assms have "q \<noteq> 0" by auto
  ultimately show ?thesis using u by (simp add: nearest64_def Let_def u_def[symmetric])
qed

lemma nearest64_bound:
  assumes "\<bar>q\<bar> \<le> pow2 1023"
  shows "\<bar>nearest64 q\<bar> \<le> pow2 1023"
proof (cases "q = 0")
  case True
  then show ?thesis by (simp add: nearest64_def order_less_imp_le)
next
  case False
  define e where "e = max (binade q - 52) (- 1074)"
  define u where "u = pow2 e"
  have u: "0 < u" unfolding u_def by simp
  from binade_lower[OF False] assms have "pow2 (binade q) \<le> pow2 1023" by linarith
  then have "binade q \<le> 1023" by (simp only: pow2_le_iff)
  then have e: "e \<le> 971" unfolding e_def by simp
  define n where "n = nat (1023 - e)"
  have n: "1023 = int n + e" unfolding n_def using e by simp
  have p: "pow2 1023 = of_int (2 ^ n) * u"
    unfolding u_def by (subst n, subst pow2_add) (simp add: pow2_nat)
  from assms have "\<bar>q\<bar> \<le> of_int (2 ^ n) * u" unfolding p .
  with u have "\<bar>q / u\<bar> \<le> of_int (2 ^ n)" by (simp add: field_simps)
  then have "\<bar>round_half_even (q / u)\<bar> \<le> 2 ^ n" by (rule round_half_even_bound)
  then have "\<bar>rat_of_int (round_half_even (q / u))\<bar> \<le> of_int (2 ^ n)"
    by (simp only: of_int_abs[symmetric] of_int_le_iff)
  with u have "\<bar>of_int (round_half_even (q / u)) * u\<bar> \<le> of_int (2 ^ n) * u"
    by (simp add: abs_mult)
  then show ?thesis
    using False unfolding p by (simp add: nearest64_def Let_def e_def[symmetric] u_def[symmetric])
qed

lemma pow2_1023_less: "pow2 1023 < pow2 1024"
proof -
  have "\<not> pow2 1024 \<le> pow2 1023" by (simp only: pow2_le_iff)
  then show ?thesis by simp
qed

lemma round64_not_inf:
  assumes "\<bar>q\<bar> \<le> pow2 1023"
  shows "\<not> is_inf (round64 q)"
proof -
  from nearest64_bound[OF assms] pow2_1023_less have "\<not> pow2 1024 \<le> \<bar>nearest64 q\<bar>" by linarith
  then show ?thesis by (simp add: round64_def Let_def)
qed

lemma round64_not_zero:
  assumes "1 \<le> \<bar>q\<bar>"
  shows "\<not> is_zero (round64 q)"
  using nearest64_nonzero[OF assms] by (simp add: round64_def Let_def is_zero_def)

lemma round64_not_NaN [simp]: "round64 q \<noteq> NaN"
  by (simp add: round64_def Let_def)

lemma int_to_float_not_zero:
  assumes "i \<noteq> 0" "int_to_float i = Inr x"
  shows "\<not> is_zero x"
proof -
  from assms(1) have "1 \<le> \<bar>i\<bar>" by simp
  then have "rat_of_int 1 \<le> rat_of_int \<bar>i\<bar>" by (simp only: of_int_le_iff)
  then have "1 \<le> \<bar>rat_of_int i\<bar>" by simp
  from round64_not_zero[OF this] assms(2) show ?thesis
    by (auto simp: int_to_float_def Let_def split: if_splits)
qed

lemma int_to_float_sized:
  assumes "\<bar>i\<bar> < 2 ^ 1023"
  shows "\<exists>x. int_to_float i = Inr x"
proof -
  from assms have "\<bar>i\<bar> \<le> 2 ^ 1023" by simp
  then have "rat_of_int \<bar>i\<bar> \<le> of_int (2 ^ 1023)" by (simp only: of_int_le_iff)
  then have "\<bar>rat_of_int i\<bar> \<le> pow2 1023" by (simp add: pow2_def)
  from round64_not_inf[OF this] show ?thesis by (simp add: int_to_float_def Let_def)
qed

subsection \<open>The operators\<close>

lemma int_val_is_num: "int_val a = Some x \<Longrightarrow> is_number a"
  by (cases a) auto

lemma as_float_PFloat [simp]: "as_float (PFloat x) = Inr x"
  by (simp add: as_float_def)

lemma as_float_int: "int_val a = Some i \<Longrightarrow> as_float a = int_to_float i"
  by (cases a) (auto simp: as_float_def)

lemma as_float_errors: "is_number a \<Longrightarrow> as_float a = Inl e \<Longrightarrow> e = OverflowError"
  by (cases a) (auto simp: as_float_def int_to_float_def Let_def split: if_splits)

lemma as_float_not_num: "\<not> is_number a \<Longrightarrow> as_float a = Inl TypeError"
  by (cases a) (auto simp: as_float_def)

lemma py_sub_ints: "int_val a = Some x \<Longrightarrow> int_val b = Some y \<Longrightarrow> py_sub a b = Inr (PInt (x - y))"
  by (simp add: py_sub_def)

lemma py_sub_Inr: "py_sub a b = Inr d \<Longrightarrow> is_number a \<and> is_number b \<and> is_number d"
  by (auto simp: py_sub_def bind_exn_def int_val_is_num split: option.splits if_splits sum.splits)

lemma py_sub_float:
  "py_sub a b = Inr d \<Longrightarrow> int_val a = None \<or> int_val b = None \<Longrightarrow> \<exists>x. d = PFloat x"
  by (auto simp: py_sub_def bind_exn_def split: option.splits if_splits sum.splits)

lemma py_sub_Inl:
  "py_sub a b = Inl e \<Longrightarrow>
     (e = TypeError \<and> (\<not> is_number a \<or> \<not> is_number b)) \<or> (e = OverflowError \<and> is_number a \<and> is_number b)"
  by (auto simp: py_sub_def bind_exn_def split: option.splits if_splits sum.splits
        dest: as_float_errors)

lemma py_sub_type_error: "\<not> is_number a \<or> \<not> is_number b \<Longrightarrow> py_sub a b = Inl TypeError"
  by (cases a; cases b) (auto simp: py_sub_def)

lemma py_abs_num: "is_number a \<Longrightarrow> \<exists>r. py_abs a = Inr r"
  by (cases a) (auto simp: py_abs_def)

lemma py_abs_not_num: "\<not> is_number a \<Longrightarrow> py_abs a = Inl TypeError"
  by (cases a) (auto simp: py_abs_def)

text \<open>A divisor that is a number other than zero: the absolute value of a true number is one.\<close>

lemma fabs_is_zero [simp]: "is_zero (fabs x) = is_zero x"
  by (cases x) (auto simp: is_zero_def)

lemma py_abs_truthy:
  assumes "truthy a" "py_abs a = Inr r"
  shows "(\<exists>i. int_val r = Some i \<and> 0 < i \<and> i = \<bar>the (int_val a)\<bar> \<and> int_val a \<noteq> None)
       \<or> (\<exists>x. r = PFloat x \<and> \<not> is_zero x \<and> int_val a = None)"
proof (cases a)
  case (PFloat x)
  with assms have "r = PFloat (fabs x)" "\<not> is_zero x" by (auto simp: py_abs_def is_zero_def)
  with PFloat show ?thesis by simp
qed (use assms in \<open>auto simp: py_abs_def split: if_splits\<close>)

lemma fdiv_not_zero: "\<not> is_zero y \<Longrightarrow> fdiv x y \<noteq> Inl e"
  by (simp add: fdiv_def)

lemma int_truediv_errors:
  "y \<noteq> 0 \<Longrightarrow> int_truediv x y = Inl e \<Longrightarrow> e = OverflowError"
  by (auto simp: int_truediv_def Let_def split: if_splits)

lemma py_truediv_divisor:
  assumes r: "(\<exists>i. int_val r = Some i \<and> 0 < i) \<or> (\<exists>x. r = PFloat x \<and> \<not> is_zero x)"
    and d: "is_number d" and e: "py_truediv d r = Inl e"
  shows "e = OverflowError"
proof (cases "int_val d")
  case (Some x)
  from r show ?thesis
  proof
    assume "\<exists>i. int_val r = Some i \<and> 0 < i"
    then obtain i where i: "int_val r = Some i" "0 < i" by blast
    with Some e have "int_truediv x i = Inl e"
      by (auto simp: py_truediv_def bind_exn_def split: sum.splits)
    with i(2) show ?thesis using int_truediv_errors[of i x e] by simp
  next
    assume "\<exists>y. r = PFloat y \<and> \<not> is_zero y"
    then obtain y where y: "r = PFloat y" "\<not> is_zero y" by blast
    from e y Some d show ?thesis
      by (auto simp: py_truediv_def bind_exn_def as_float_int int_to_float_def Let_def
          fdiv_not_zero split: sum.splits if_splits)
  qed
next
  case None
  with d obtain x where x: "d = PFloat x" by (cases d) auto
  from r show ?thesis
  proof
    assume "\<exists>i. int_val r = Some i \<and> 0 < i"
    then obtain i where i: "int_val r = Some i" "0 < i" by blast
    then have rn: "is_number r" by (auto dest: int_val_is_num)
    have nz: "\<not> is_zero y" if "int_to_float i = Inr y" for y
      using int_to_float_not_zero[of i y] i(2) that by simp
    show ?thesis
    proof (cases "int_to_float i")
      case (Inl e')
      with e x i rn have "e = e'"
        by (auto simp: py_truediv_def bind_exn_def as_float_int)
      with Inl show ?thesis by (auto simp: int_to_float_def Let_def split: if_splits)
    next
      case (Inr y)
      with e x i rn fdiv_not_zero[OF nz[OF Inr], of x e] show ?thesis
        by (auto simp: py_truediv_def bind_exn_def as_float_int split: sum.splits)
    qed
  next
    assume "\<exists>y. r = PFloat y \<and> \<not> is_zero y"
    then obtain y where y: "r = PFloat y" "\<not> is_zero y" by blast
    from fdiv_not_zero[OF y(2), of x e] e x y show ?thesis
      by (auto simp: py_truediv_def bind_exn_def split: sum.splits)
  qed
qed

text \<open>The growth rate of two true values.\<close>

lemma growth_rate_type_error:
  "\<not> is_number p \<or> \<not> is_number c \<Longrightarrow> growth_rate p c = Inl TypeError"
  using py_sub_type_error[of c p] by (auto simp: growth_rate_def bind_exn_def)

lemma growth_rate_errors:
  assumes t: "truthy p" and e: "growth_rate p c = Inl e"
  shows "(e = TypeError \<and> (\<not> is_number p \<or> \<not> is_number c)) \<or> (e = OverflowError \<and> is_number p \<and> is_number c)"
proof (cases "py_sub c p")
  case (Inl e')
  with e have "e' = e" by (simp add: growth_rate_def bind_exn_def)
  with py_sub_Inl[OF Inl] show ?thesis by auto
next
  case (Inr d)
  note n = py_sub_Inr[OF Inr]
  from py_abs_num n obtain r where r: "py_abs p = Inr r" by blast
  from e Inr r have q: "py_truediv d r = Inl e" by (simp add: growth_rate_def bind_exn_def)
  from py_abs_truthy[OF t r]
  have "(\<exists>i. int_val r = Some i \<and> 0 < i) \<or> (\<exists>x. r = PFloat x \<and> \<not> is_zero x)" by blast
  from py_truediv_divisor[OF this _ q] n show ?thesis by simp
qed

lemma growth_rate_not_zero_div:
  "truthy p \<Longrightarrow> growth_rate p c \<noteq> Inl ZeroDivisionError"
  using growth_rate_errors[of p c ZeroDivisionError] by auto

text \<open>On integers the growth rate is the exact quotient, rounded once.\<close>

lemma growth_rate_ints:
  assumes "p \<noteq> 0"
  shows "growth_rate (PInt p) (PInt c) =
     (if c = p then Inr (PFloat (Finite 0))
      else if is_inf (round64 (of_int (c - p) / of_int \<bar>p\<bar>)) then Inl OverflowError
      else Inr (PFloat (round64 (of_int (c - p) / of_int \<bar>p\<bar>))))"
  using assms
  by (simp add: growth_rate_def py_sub_def py_abs_def py_truediv_def int_truediv_def
        bind_exn_def Let_def signed_zero_def)

lemma as_float_sized:
  assumes "float_sized v" "is_number v"
  shows "\<exists>x. as_float v = Inr x"
proof (cases "int_val v")
  case None
  with assms(2) show ?thesis by (cases v) auto
next
  case (Some i)
  with assms(1) have "\<bar>i\<bar> < 2 ^ 1023" by (simp add: float_sized_def)
  from int_to_float_sized[OF this] Some show ?thesis by (simp add: as_float_int)
qed

lemma int_truediv_sized:
  assumes x: "x \<noteq> 0" "\<bar>x\<bar> < 2 ^ 1023" and y: "\<bar>y\<bar> < 2 ^ 1023"
  shows "\<exists>q. int_truediv (y - x) \<bar>x\<bar> = Inr q"
proof (cases "y - x = 0")
  case True
  with x(1) show ?thesis by (simp add: int_truediv_def)
next
  case False
  have a: "1 \<le> \<bar>x\<bar>" using x(1) by simp
  have "\<bar>y - x\<bar> \<le> \<bar>y\<bar> + \<bar>x\<bar>" by simp
  also have "\<dots> \<le> (\<bar>y\<bar> + 1) * \<bar>x\<bar>"
  proof -
    have "\<bar>y\<bar> * 1 \<le> \<bar>y\<bar> * \<bar>x\<bar>" using a by (intro mult_left_mono) simp_all
    then show ?thesis by (simp add: algebra_simps)
  qed
  also have "\<dots> \<le> 2 ^ 1023 * \<bar>x\<bar>" using y by (intro mult_right_mono) simp_all
  finally have "\<bar>y - x\<bar> \<le> 2 ^ 1023 * \<bar>x\<bar>" .
  then have "rat_of_int \<bar>y - x\<bar> \<le> rat_of_int (2 ^ 1023 * \<bar>x\<bar>)" by (simp only: of_int_le_iff)
  then have "\<bar>rat_of_int (y - x)\<bar> \<le> 2 ^ 1023 * \<bar>rat_of_int x\<bar>" by simp
  moreover have "0 < \<bar>rat_of_int x\<bar>" using x(1) by simp
  ultimately have "\<bar>rat_of_int (y - x) / rat_of_int \<bar>x\<bar>\<bar> \<le> pow2 1023"
    by (simp add: pow2_def field_simps)
  from round64_not_inf[OF this] False x(1) show ?thesis
    by (simp add: int_truediv_def Let_def)
qed

text \<open>The growth rate of two true numbers is defined when their integers are float sized.\<close>

lemma growth_rate_sized:
  assumes p: "truthy p" "float_sized p" and c: "truthy c" "float_sized c"
  shows "\<exists>q. growth_rate p c = Inr q"
proof -
  from p c have n: "is_number p" "is_number c" by (simp_all add: float_sized_def)
  show ?thesis
  proof (cases "int_val p \<noteq> None \<and> int_val c \<noteq> None")
    case True
    then obtain x y where xy: "int_val p = Some x" "int_val c = Some y" by auto
    from p xy have x: "x \<noteq> 0" "\<bar>x\<bar> < 2 ^ 1023"
      by (cases p; auto simp: float_sized_def split: if_splits)+
    from c xy have y: "\<bar>y\<bar> < 2 ^ 1023" by (simp add: float_sized_def)
    from int_truediv_sized[OF x y] obtain q where "int_truediv (y - x) \<bar>x\<bar> = Inr q" ..
    with xy show ?thesis
      by (simp add: growth_rate_def py_sub_def py_abs_def py_truediv_def bind_exn_def)
  next
    case False
    from as_float_sized[OF p(2) n(1)] obtain fp where fp: "as_float p = Inr fp" ..
    from as_float_sized[OF c(2) n(2)] obtain fc where fc: "as_float c = Inr fc" ..
    from False n fp fc have d: "py_sub c p = Inr (PFloat (fsub fc fp))"
      by (auto simp: py_sub_def bind_exn_def split: option.splits)
    from py_abs_num[OF n(1)] obtain r where r: "py_abs p = Inr r" ..
    have "\<exists>q. py_truediv (PFloat (fsub fc fp)) r = Inr q"
    proof (cases "py_truediv (PFloat (fsub fc fp)) r")
      case (Inr q)
      then show ?thesis by blast
    next
      case (Inl e)
      from py_abs_truthy[OF p(1) r]
      have s: "(\<exists>i. int_val r = Some i \<and> 0 < i) \<or> (\<exists>x. r = PFloat x \<and> \<not> is_zero x)" by blast
      from py_truediv_divisor[OF s _ Inl] have e: "e = OverflowError" by simp
      from py_abs_truthy[OF p(1) r] show ?thesis
      proof
        assume "\<exists>i. int_val r = Some i \<and> 0 < i \<and> i = \<bar>the (int_val p)\<bar> \<and> int_val p \<noteq> None"
        then obtain i x where i: "int_val r = Some i" "0 < i" "i = \<bar>x\<bar>" "int_val p = Some x"
          by auto
        from p(2) i(4) have "\<bar>x\<bar> < 2 ^ 1023" by (simp add: float_sized_def)
        with i(3) have "\<bar>i\<bar> < 2 ^ 1023" by simp
        from int_to_float_sized[OF this] obtain y where y: "int_to_float i = Inr y" ..
        from int_to_float_not_zero[OF _ y] i(2) have "\<not> is_zero y" by simp
        from fdiv_not_zero[OF this, of "fsub fc fp"] Inl i(1) y show ?thesis
          by (auto simp: py_truediv_def bind_exn_def as_float_int int_val_is_num
              split: sum.splits)
      next
        assume "\<exists>x. r = PFloat x \<and> \<not> is_zero x \<and> int_val p = None"
        then obtain x where x: "r = PFloat x" "\<not> is_zero x" by blast
        from fdiv_not_zero[OF x(2), of "fsub fc fp"] Inl x(1) show ?thesis
          by (auto simp: py_truediv_def bind_exn_def split: sum.splits)
      qed
    qed
    with d r show ?thesis by (simp add: growth_rate_def bind_exn_def)
  qed
qed

text \<open>Rounding three exact quotients.\<close>

lemma round64_half: "round64 (1 / 2) = Finite (1 / 2)"
  by code_simp

lemma round64_three_quarters: "round64 (- (3 / 4)) = Finite (- (3 / 4))"
  by code_simp

section \<open>calc_growth_rates\<close>

lemma truthy_ne_zero: "truthy v \<Longrightarrow> py_ne_zero v"
  by (cases v) (auto simp: py_ne_zero_def is_zero_def)

text \<open>What one field's step does.\<close>

lemma yoy_field_skip:
  "\<not> (truthy (dict_get prev f) \<and> truthy (dict_get cur f)) \<Longrightarrow> yoy_field prev f cur = Inr cur"
  by (auto simp: yoy_field_def Let_def)

lemma yoy_field_rate:
  assumes "truthy (dict_get prev f)" "truthy (dict_get cur f)"
  shows "yoy_field prev f cur =
     bind_exn (growth_rate (dict_get prev f) (dict_get cur f)) (\<lambda>q.
     Inr (AList.update (yoy_key f) q cur))"
  using assms by (simp add: yoy_field_def Let_def truthy_ne_zero)

lemma yoy_field_errors:
  assumes "yoy_field prev f cur = Inl e"
  shows "e = TypeError \<or> e = OverflowError"
proof (cases "truthy (dict_get prev f) \<and> truthy (dict_get cur f)")
  case False
  then show ?thesis using assms yoy_field_skip[of prev f cur] by auto
next
  case True
  with assms have "growth_rate (dict_get prev f) (dict_get cur f) = Inl e"
    by (auto simp: yoy_field_rate bind_exn_def split: sum.splits)
  with True growth_rate_errors[of "dict_get prev f" "dict_get cur f" e] show ?thesis by auto
qed

lemma yoy_key_inj [simp]: "yoy_key f = yoy_key g \<longleftrightarrow> f = g"
  by (simp add: yoy_key_def)

lemma growth_field_not_yoy:
  "g \<in> set growth_fields \<Longrightarrow> f \<in> set growth_fields \<Longrightarrow> g \<noteq> yoy_key f"
  by (auto simp: growth_fields_def yoy_key_def)

lemma yoy_field_Inr:
  assumes "yoy_field prev f cur = Inr cur'"
  shows "(\<forall>k. k \<noteq> yoy_key f \<longrightarrow> map_of cur' k = map_of cur k)
       \<and> yoy_entry_ok prev cur f (map_of cur' (yoy_key f))"
proof (cases "truthy (dict_get prev f) \<and> truthy (dict_get cur f)")
  case False
  then have "cur' = cur" using assms yoy_field_skip[of prev f cur] by auto
  with False show ?thesis by (auto simp: yoy_entry_ok_def)
next
  case True
  with assms obtain q where q: "growth_rate (dict_get prev f) (dict_get cur f) = Inr q"
    and c: "cur' = AList.update (yoy_key f) q cur"
    by (auto simp: yoy_field_rate bind_exn_def split: sum.splits)
  with True show ?thesis by (auto simp: yoy_entry_ok_def update_conv')
qed

lemma yoy_field_not_zero_div: "yoy_field prev f cur \<noteq> Inl ZeroDivisionError"
  using yoy_field_errors[of prev f cur ZeroDivisionError] by auto

lemma dict_get_cong: "map_of a k = map_of b k \<Longrightarrow> dict_get a k = dict_get b k"
  by (simp add: dict_get_def)

lemma yoy_entry_ok_cong:
  "dict_get cur f = dict_get cur0 f \<Longrightarrow> map_of cur (yoy_key f) = map_of cur0 (yoy_key f) \<Longrightarrow>
   dict_get prev f = dict_get prev0 f \<Longrightarrow>
   yoy_entry_ok prev cur f e = yoy_entry_ok prev0 cur0 f e"
  by (simp add: yoy_entry_ok_def)

lemma yoy_fields_Inr:
  assumes "yoy_fields prev fs cur = Inr cur'" "distinct fs" "set fs \<subseteq> set growth_fields"
  shows "(\<forall>k. k \<notin> yoy_key ` set fs \<longrightarrow> map_of cur' k = map_of cur k)
       \<and> (\<forall>f\<in>set fs. yoy_entry_ok prev cur f (map_of cur' (yoy_key f)))"
  using assms
proof (induction fs arbitrary: cur)
  case Nil
  then show ?case by simp
next
  case (Cons f fs)
  from Cons.prems(1) obtain cur1 where
    c1: "yoy_field prev f cur = Inr cur1" and rest: "yoy_fields prev fs cur1 = Inr cur'"
    by (auto simp: bind_exn_def split: sum.splits)
  note s1 = yoy_field_Inr[OF c1]
  from Cons.IH[OF rest] Cons.prems have ih:
    "\<forall>k. k \<notin> yoy_key ` set fs \<longrightarrow> map_of cur' k = map_of cur1 k"
    "\<forall>g\<in>set fs. yoy_entry_ok prev cur1 g (map_of cur' (yoy_key g))"
    by auto
  have frame: "\<forall>k. k \<notin> yoy_key ` set (f # fs) \<longrightarrow> map_of cur' k = map_of cur k"
    using ih(1) s1 by auto
  have head: "yoy_entry_ok prev cur f (map_of cur' (yoy_key f))"
  proof -
    have "yoy_key f \<notin> yoy_key ` set fs" using Cons.prems(2) by auto
    then have "map_of cur' (yoy_key f) = map_of cur1 (yoy_key f)" using ih(1) by blast
    with s1 show ?thesis by simp
  qed
  have tail: "yoy_entry_ok prev cur g (map_of cur' (yoy_key g))" if g: "g \<in> set fs" for g
  proof -
    have gf: "g \<noteq> f" using Cons.prems(2) g by auto
    have gg: "g \<in> set growth_fields" "f \<in> set growth_fields" using Cons.prems(3) g by auto
    have "g \<noteq> yoy_key f" using growth_field_not_yoy[OF gg] .
    then have a: "dict_get cur1 g = dict_get cur g" using s1 by (auto intro: dict_get_cong)
    have b: "map_of cur1 (yoy_key g) = map_of cur (yoy_key g)" using s1 gf by simp
    from ih(2) g have "yoy_entry_ok prev cur1 g (map_of cur' (yoy_key g))" by blast
    then show ?thesis using yoy_entry_ok_cong[OF a b refl] by simp
  qed
  from frame head tail show ?case by auto
qed

lemma yoy_fields_errors:
  "yoy_fields prev fs cur = Inl e \<Longrightarrow> e = TypeError \<or> e = OverflowError"
  by (induction fs arbitrary: cur)
     (auto simp: bind_exn_def split: sum.splits dest: yoy_field_errors)

lemma yoy_fields_growth:
  assumes "yoy_fields prev growth_fields cur = Inr cur'"
  shows "\<forall>k. k \<notin> yoy_key ` set growth_fields \<longrightarrow> map_of cur' k = map_of cur k"
    and "\<forall>f\<in>set growth_fields. yoy_entry_ok prev cur f (map_of cur' (yoy_key f))"
    and "\<forall>f\<in>set growth_fields. dict_get cur' f = dict_get cur f"
proof -
  have d: "distinct growth_fields" by (simp add: growth_fields_def)
  from yoy_fields_Inr[OF assms d] show
    a: "\<forall>k. k \<notin> yoy_key ` set growth_fields \<longrightarrow> map_of cur' k = map_of cur k"
    and "\<forall>f\<in>set growth_fields. yoy_entry_ok prev cur f (map_of cur' (yoy_key f))"
    by auto
  show "\<forall>f\<in>set growth_fields. dict_get cur' f = dict_get cur f"
  proof
    fix f assume f: "f \<in> set growth_fields"
    then have "f \<notin> yoy_key ` set growth_fields" using growth_field_not_yoy by blast
    with a show "dict_get cur' f = dict_get cur f" by (auto intro: dict_get_cong)
  qed
qed

lemma growth_loop_Inr:
  assumes "growth_loop prev rest = Inr out"
    and "\<forall>f\<in>set growth_fields. dict_get prev f = dict_get prev0 f"
  shows "length out = length rest \<and>
     (\<forall>i<length rest.
        (\<forall>k. k \<notin> yoy_key ` set growth_fields \<longrightarrow> map_of (out ! i) k = map_of (rest ! i) k) \<and>
        (\<forall>f\<in>set growth_fields.
            yoy_entry_ok ((prev0 # rest) ! i) (rest ! i) f (map_of (out ! i) (yoy_key f))))"
  using assms
proof (induction rest arbitrary: prev prev0 out)
  case Nil
  then show ?case by simp
next
  case (Cons cur rest)
  from Cons.prems(1) obtain cur' rest' where
    c: "yoy_fields prev growth_fields cur = Inr cur'"
    and r: "growth_loop cur' rest = Inr rest'" and out: "out = cur' # rest'"
    by (auto simp: bind_exn_def split: sum.splits)
  note y = yoy_fields_growth[OF c]
  note ih = Cons.IH[OF r y(3)]
  have h0: "yoy_entry_ok prev0 cur f (map_of cur' (yoy_key f))" if "f \<in> set growth_fields" for f
    using y(2) that Cons.prems(2) yoy_entry_ok_cong[of cur f cur prev prev0] by auto
  show ?case
  proof (intro conjI allI impI)
    show "length out = length (cur # rest)" using ih out by simp
  next
    fix i k assume "i < length (cur # rest)" "k \<notin> yoy_key ` set growth_fields"
    then show "map_of (out ! i) k = map_of ((cur # rest) ! i) k"
      using ih y(1) out by (cases i) auto
  next
    fix i assume i: "i < length (cur # rest)"
    show "\<forall>f\<in>set growth_fields.
            yoy_entry_ok ((prev0 # cur # rest) ! i) ((cur # rest) ! i) f (map_of (out ! i) (yoy_key f))"
    proof (cases i)
      case 0
      then show ?thesis using h0 out by simp
    next
      case (Suc j)
      then show ?thesis using ih i out by simp
    qed
  qed
qed

lemma growth_loop_errors:
  "growth_loop prev rest = Inl e \<Longrightarrow> e = TypeError \<or> e = OverflowError"
  by (induction rest arbitrary: prev)
     (auto simp: bind_exn_def split: sum.splits dest: yoy_fields_errors)


lemma yoy_field_total:
  assumes "float_sized (dict_get prev f)" "float_sized (dict_get cur f)"
  shows "\<exists>cur'. yoy_field prev f cur = Inr cur'"
proof (cases "truthy (dict_get prev f) \<and> truthy (dict_get cur f)")
  case False
  then show ?thesis using yoy_field_skip[of prev f cur] by auto
next
  case True
  with assms growth_rate_sized[of "dict_get prev f" "dict_get cur f"]
  obtain q where "growth_rate (dict_get prev f) (dict_get cur f) = Inr q" by blast
  with True show ?thesis by (simp add: yoy_field_rate bind_exn_def)
qed

lemma yoy_fields_total:
  assumes "set fs \<subseteq> set growth_fields"
    and "\<forall>f\<in>set fs. float_sized (dict_get prev f) \<and> float_sized (dict_get cur0 f)"
    and "\<forall>f\<in>set growth_fields. dict_get cur f = dict_get cur0 f"
  shows "\<exists>cur'. yoy_fields prev fs cur = Inr cur'"
  using assms
proof (induction fs arbitrary: cur)
  case Nil
  then show ?case by simp
next
  case (Cons f fs)
  have ff: "f \<in> set growth_fields" using Cons.prems(1) by simp
  have "dict_get cur f = dict_get cur0 f" using Cons.prems(3) ff by blast
  then obtain cur1 where c1: "yoy_field prev f cur = Inr cur1"
    using yoy_field_total[of prev f cur] Cons.prems(2) by auto
  have "\<forall>g\<in>set growth_fields. dict_get cur1 g = dict_get cur0 g"
  proof
    fix g assume g: "g \<in> set growth_fields"
    have "g \<noteq> yoy_key f" using growth_field_not_yoy[OF g ff] .
    then have "dict_get cur1 g = dict_get cur g" using yoy_field_Inr[OF c1] by (auto intro: dict_get_cong)
    then show "dict_get cur1 g = dict_get cur0 g" using Cons.prems(3) g by simp
  qed
  with Cons.IH[of cur1] Cons.prems obtain cur' where "yoy_fields prev fs cur1 = Inr cur'" by auto
  with c1 show ?case by (auto simp: bind_exn_def)
qed

lemma growth_loop_total:
  assumes "list_all numeric_fields rest"
    and "\<forall>f\<in>set growth_fields. float_sized (dict_get prev f)"
  shows "\<exists>out. growth_loop prev rest = Inr out"
  using assms
proof (induction rest arbitrary: prev)
  case Nil
  then show ?case by simp
next
  case (Cons cur rest)
  have nc: "\<forall>f\<in>set growth_fields. float_sized (dict_get cur f)"
    using Cons.prems(1) by (simp add: numeric_fields_def list_all_iff)
  obtain cur' where c: "yoy_fields prev growth_fields cur = Inr cur'"
    using yoy_fields_total[of growth_fields prev cur cur] Cons.prems(2) nc by auto
  from yoy_fields_growth(3)[OF c] nc
  have "\<forall>f\<in>set growth_fields. float_sized (dict_get cur' f)"
    by simp
  with Cons.IH[of cur'] Cons.prems(1) obtain out where "growth_loop cur' rest = Inr out" by auto
  with c show ?case by (auto simp: bind_exn_def)
qed


lemma calc_growth_rates_total:
  assumes "list_all numeric_fields rows"
  shows "\<exists>out. calc_growth_rates rows = Inr out"
proof (cases rows)
  case Nil
  then show ?thesis by simp
next
  case (Cons first rest)
  with assms have "list_all numeric_fields rest"
    and "\<forall>f\<in>set growth_fields. float_sized (dict_get first f)"
    by (simp_all add: numeric_fields_def list_all_iff)
  from growth_loop_total[OF this] Cons show ?thesis by (auto simp: bind_exn_def)
qed

lemma calc_growth_rates_Inr:
  assumes out: "calc_growth_rates rows = Inr out"
  shows "length out = length rows"
    and "\<And>i k. i < length rows \<Longrightarrow> k \<notin> yoy_key ` set growth_fields \<Longrightarrow>
           map_of (out ! i) k = map_of (rows ! i) k"
    and "\<And>i f. i < length rows \<Longrightarrow> f \<in> set growth_fields \<Longrightarrow>
           (if i = 0 then map_of (out ! i) (yoy_key f) = map_of (rows ! i) (yoy_key f)
            else yoy_entry_ok (rows ! (i - 1)) (rows ! i) f (map_of (out ! i) (yoy_key f)))"
proof -
  show "length out = length rows"
  proof (cases rows)
    case Nil
    with out show ?thesis by simp
  next
    case (Cons first rest)
    with out obtain rest' where r: "growth_loop first rest = Inr rest'" and o: "out = first # rest'"
      by (auto simp: bind_exn_def split: sum.splits)
    from growth_loop_Inr[OF r, of first] o Cons show ?thesis by simp
  qed
next
  fix i k assume i: "i < length rows" and k: "k \<notin> yoy_key ` set growth_fields"
  from i obtain first rest where Cons: "rows = first # rest" by (cases rows) auto
  with out obtain rest' where r: "growth_loop first rest = Inr rest'" and o: "out = first # rest'"
    by (auto simp: bind_exn_def split: sum.splits)
  show "map_of (out ! i) k = map_of (rows ! i) k"
  proof (cases i)
    case 0
    then show ?thesis using o Cons by simp
  next
    case (Suc j)
    then have "j < length rest" using i Cons by simp
    with growth_loop_Inr[OF r, of first] k show ?thesis using Suc o Cons by simp
  qed
next
  fix i f assume i: "i < length rows" and f: "f \<in> set growth_fields"
  from i obtain first rest where Cons: "rows = first # rest" by (cases rows) auto
  with out obtain rest' where r: "growth_loop first rest = Inr rest'" and o: "out = first # rest'"
    by (auto simp: bind_exn_def split: sum.splits)
  show "if i = 0 then map_of (out ! i) (yoy_key f) = map_of (rows ! i) (yoy_key f)
        else yoy_entry_ok (rows ! (i - 1)) (rows ! i) f (map_of (out ! i) (yoy_key f))"
  proof (cases i)
    case 0
    then show ?thesis using o Cons by simp
  next
    case (Suc j)
    then have "j < length rest" using i Cons by simp
    with growth_loop_Inr[OF r, of first] f show ?thesis using Suc o Cons by simp
  qed
qed

lemma calc_growth_rates_errors:
  "calc_growth_rates rows = Inl e \<Longrightarrow> e = TypeError \<or> e = OverflowError"
  by (cases rows) (auto simp: bind_exn_def split: sum.splits dest: growth_loop_errors)



lemmas growth_eval = growth_fields_def yoy_field_def Let_def dict_get_def growth_rate_ints
  py_ne_zero_def bind_exn_def yoy_key_def round64_half round64_three_quarters




lemma row_year_convert_row [simp]:
  "row_year (convert_row R item) = year_part (item_year R item)"
  by (simp add: convert_row_def row_year_def dict_get_def Let_def)

lemma map_of_convert_row_cong:
  "map_of a = map_of b \<Longrightarrow> convert_row R a = convert_row R b"
  by (simp add: convert_row_def item_year_def dict_get_def)

lemma year_part_eq:
  "year_part y = (if dot \<in> set y then takeWhile (\<lambda>c. c \<noteq> dot) y else take 4 y)"
  by (simp add: year_part_def)

lemma find_filter_hd: "find P xs = (case filter P xs of [] \<Rightarrow> None | x # _ \<Rightarrow> Some x)"
  by (induction xs) auto

lemma find_sort_key_stable:
  "find (\<lambda>x. f x = k) (sort_key f xs) = find (\<lambda>x. f x = k) xs"
  by (simp add: find_filter_hd sort_key_stable)

lemma find_map: "find P (map g xs) = map_option g (find (P \<circ> g) xs)"
  by (induction xs) auto

lemma dict_get_convert_row:
  assumes "f \<in> set growth_fields"
  shows "dict_get (convert_row R item) f = dict_get item f"
proof -
  from assms have "f = cps ''revenue'' \<or> f = cps ''operating_income'' \<or> f = cps ''net_income''"
    by (simp add: growth_fields_def)
  then show ?thesis
    by (elim disjE) (simp_all add: convert_row_def item_keys_def dict_get_def Let_def)
qed

lemma unique_years_subset: "set (unique_years seen rs) \<subseteq> set rs"
  by (induction rs arbitrary: seen) auto

lemma unique_years_years:
  "row_year ` set (unique_years seen rs) = row_year ` set rs - seen"
proof (induction rs arbitrary: seen)
  case Nil
  then show ?case by simp
next
  case (Cons r rs)
  show ?case
  proof (cases "row_year r \<in> seen")
    case True
    then show ?thesis using Cons.IH[of seen] by auto
  next
    case False
    then show ?thesis using Cons.IH[of "insert (row_year r) seen"] by auto
  qed
qed

lemma unique_years_not_seen:
  "x \<in> set (unique_years seen rs) \<Longrightarrow> row_year x \<notin> seen"
  using unique_years_years[of seen rs] by blast

lemma unique_years_distinct: "distinct (map row_year (unique_years seen rs))"
proof (induction rs arbitrary: seen)
  case Nil
  then show ?case by simp
next
  case (Cons r rs)
  show ?case
  proof (cases "row_year r \<in> seen")
    case True
    then show ?thesis using Cons.IH by simp
  next
    case False
    have "row_year r \<notin> row_year ` set (unique_years (insert (row_year r) seen) rs)"
      unfolding unique_years_years by simp
    then show ?thesis using False Cons.IH by simp
  qed
qed

lemma unique_years_sorted:
  "sorted (map row_year rs) \<Longrightarrow> sorted (map row_year (unique_years seen rs))"
proof (induction rs arbitrary: seen)
  case Nil
  then show ?case by simp
next
  case (Cons r rs)
  then show ?case using unique_years_subset[of "insert (row_year r) seen" rs] by auto
qed

lemma unique_years_first:
  "r \<in> set (unique_years seen rs) \<Longrightarrow> find (\<lambda>x. row_year x = row_year r) rs = Some r"
proof (induction rs arbitrary: seen)
  case Nil
  then show ?case by simp
next
  case (Cons a rs)
  show ?case
  proof (cases "row_year a \<in> seen")
    case True
    with Cons.prems have r: "r \<in> set (unique_years seen rs)" by simp
    from unique_years_not_seen[OF r] True have "row_year a \<noteq> row_year r" by auto
    with Cons.IH[OF r] show ?thesis by simp
  next
    case False
    show ?thesis
    proof (cases "r = a")
      case True
      then show ?thesis by simp
    next
      case ne: False
      with False Cons.prems have r: "r \<in> set (unique_years (insert (row_year a) seen) rs)" by simp
      from unique_years_not_seen[OF r] have "row_year a \<noteq> row_year r" by auto
      with Cons.IH[OF r] show ?thesis by simp
    qed
  qed
qed
lemma year_not_yoy: "cps ''year'' \<notin> yoy_key ` set growth_fields"
  by (simp add: growth_fields_def yoy_key_def)

lemma row_year_cong: "map_of a (cps ''year'') = map_of b (cps ''year'') \<Longrightarrow> row_year a = row_year b"
  by (simp add: row_year_def dict_get_def)

lemma calc_growth_rates_years:
  assumes "calc_growth_rates rows = Inr out"
  shows "map row_year out = map row_year rows"
proof (rule nth_equalityI)
  show "length (map row_year out) = length (map row_year rows)"
    using calc_growth_rates_Inr(1)[OF assms] by simp
next
  fix i assume "i < length (map row_year out)"
  then have i: "i < length rows" using calc_growth_rates_Inr(1)[OF assms] by simp
  from calc_growth_rates_Inr(2)[OF assms i year_not_yoy]
  have "row_year (out ! i) = row_year (rows ! i)" by (rule row_year_cong)
  then show "map row_year out ! i = map row_year rows ! i"
    using i calc_growth_rates_Inr(1)[OF assms] by simp
qed

lemma numeric_fields_convert_row:
  "numeric_fields (convert_row R item) = numeric_fields item"
  by (simp add: numeric_fields_def list_all_iff dict_get_convert_row)

lemma convert_unique_props:
  fixes R fin
  defines "uniq \<equiv> unique_years {} (sort_key row_year (map (convert_row R) fin))"
  shows "sorted_wrt (<) (map row_year uniq)"
    and "set (map row_year uniq) = (\<lambda>item. year_part (item_year R item)) ` set fin"
    and "\<And>u. u \<in> set uniq \<Longrightarrow>
           \<exists>item. find (\<lambda>it. year_part (item_year R it) = row_year u) fin = Some item \<and>
                  u = convert_row R item"
    and "list_all numeric_fields fin \<Longrightarrow> list_all numeric_fields uniq"
proof -
  let ?res = "map (convert_row R) fin"
  let ?srt = "sort_key row_year ?res"
  have "sorted (map row_year ?srt)" by simp
  then have "sorted (map row_year uniq)" unfolding uniq_def by (rule unique_years_sorted)
  moreover have "distinct (map row_year uniq)" unfolding uniq_def by (rule unique_years_distinct)
  ultimately show "sorted_wrt (<) (map row_year uniq)" by (simp add: strict_sorted_iff)
  have "row_year ` set uniq = row_year ` set ?srt" unfolding uniq_def unique_years_years by simp
  also have "\<dots> = (\<lambda>item. year_part (item_year R item)) ` set fin" by (simp add: image_comp)
  finally show "set (map row_year uniq) = (\<lambda>item. year_part (item_year R item)) ` set fin" by simp
  show "\<exists>item. find (\<lambda>it. year_part (item_year R it) = row_year u) fin = Some item \<and>
                  u = convert_row R item" if "u \<in> set uniq" for u
  proof -
    from that have "find (\<lambda>x. row_year x = row_year u) ?srt = Some u"
      unfolding uniq_def by (rule unique_years_first)
    then have "find (\<lambda>x. row_year x = row_year u) ?res = Some u"
      by (simp only: find_sort_key_stable)
    then have "map_option (convert_row R) (find ((\<lambda>x. row_year x = row_year u) \<circ> convert_row R) fin) = Some u"
      by (simp only: find_map)
    then show ?thesis by (auto simp: comp_def)
  qed
  show "list_all numeric_fields uniq" if "list_all numeric_fields fin"
  proof -
    have "set uniq \<subseteq> set ?res" unfolding uniq_def using unique_years_subset[of "{}" ?srt] by simp
    with that show ?thesis by (auto simp: list_all_iff numeric_fields_convert_row)
  qed
qed

text \<open>
  Claim C10. The list \<open>_convert_filing_financials\<close> returns has strictly increasing,
  pairwise distinct \<open>'year'\<close> values: exactly the normalized years of the input. The row
  of each year is the converted row of the first input row with that normalized year (the
  sort is stable, so this is the first row for that year after sorting), with only the
  growth rate entries added. The year string is normalized by cutting it at the first dot,
  or to its first four characters when it has no dot. The function returns whenever the
  growth fields of the extracted rows hold numbers whose integers are below \<open>2 ^ 1023\<close> in
  absolute value, and the only exceptions it raises are the \<open>TypeError\<close> and the
  \<open>OverflowError\<close> of \<open>calc_growth_rates\<close>.
\<close>

theorem convert_filing_financials_years:
  "(list_all numeric_fields fin \<longrightarrow> (\<exists>out. convert_filing_financials R fin = Inr out)) \<and>
   (\<forall>e. convert_filing_financials R fin = Inl e \<longrightarrow> e = TypeError \<or> e = OverflowError) \<and>
   (\<forall>out. convert_filing_financials R fin = Inr out \<longrightarrow>
      sorted_wrt (<) (map row_year out) \<and> distinct (map row_year out) \<and>
      set (map row_year out) = (\<lambda>item. year_part (item_year R item)) ` set fin \<and>
      (\<forall>row\<in>set out. \<exists>item.
          find (\<lambda>it. year_part (item_year R it) = row_year row) fin = Some item \<and>
          (\<forall>k. k \<notin> yoy_key ` set growth_fields \<longrightarrow> map_of row k = map_of (convert_row R item) k))) \<and>
   (\<forall>y. year_part y = (if dot \<in> set y then takeWhile (\<lambda>c. c \<noteq> dot) y else take 4 y))"
proof -
  define uniq where "uniq = unique_years {} (sort_key row_year (map (convert_row R) fin))"
  note u = convert_unique_props[where R=R and fin=fin, folded uniq_def]
  have conv: "convert_filing_financials R fin = (if uniq \<noteq> [] then calc_growth_rates uniq else Inr [])"
    by (simp add: convert_filing_financials_def uniq_def Let_def)
  have total: "\<exists>out. convert_filing_financials R fin = Inr out" if "list_all numeric_fields fin"
    using calc_growth_rates_total[OF u(4)[OF that]] conv by auto
  have res: "sorted_wrt (<) (map row_year out) \<and> distinct (map row_year out) \<and>
      set (map row_year out) = (\<lambda>item. year_part (item_year R item)) ` set fin \<and>
      (\<forall>row\<in>set out. \<exists>item.
          find (\<lambda>it. year_part (item_year R it) = row_year row) fin = Some item \<and>
          (\<forall>k. k \<notin> yoy_key ` set growth_fields \<longrightarrow> map_of row k = map_of (convert_row R item) k))"
    if out: "convert_filing_financials R fin = Inr out" for out
  proof -
    have c: "calc_growth_rates uniq = Inr out"
    proof (cases "uniq = []")
      case True
      with out conv show ?thesis by simp
    next
      case False
      with out conv show ?thesis by simp
    qed
    have years: "map row_year out = map row_year uniq" using c by (rule calc_growth_rates_years)
    have s: "sorted_wrt (<) (map row_year out)" using u(1) years by simp
    then have d: "distinct (map row_year out)" by (simp add: strict_sorted_iff)
    have y: "set (map row_year out) = (\<lambda>item. year_part (item_year R item)) ` set fin"
      using u(2) years by simp
    have f: "\<exists>item. find (\<lambda>it. year_part (item_year R it) = row_year row) fin = Some item \<and>
          (\<forall>k. k \<notin> yoy_key ` set growth_fields \<longrightarrow> map_of row k = map_of (convert_row R item) k)"
      if mem: "row \<in> set out" for row
    proof -
      from mem obtain i where i: "i < length out" "row = out ! i" by (auto simp: in_set_conv_nth)
      have l: "length out = length uniq" using calc_growth_rates_Inr(1)[OF c] .
      have ui: "uniq ! i \<in> set uniq" using i l by simp
      have ry: "row_year row = row_year (uniq ! i)"
        using years i l by (metis length_map nth_map)
      from u(3)[OF ui] obtain item where
        it: "find (\<lambda>it. year_part (item_year R it) = row_year (uniq ! i)) fin = Some item"
        "uniq ! i = convert_row R item" by blast
      have "\<forall>k. k \<notin> yoy_key ` set growth_fields \<longrightarrow> map_of row k = map_of (convert_row R item) k"
        using calc_growth_rates_Inr(2)[OF c] i l it(2) by simp
      with it(1) ry show ?thesis by auto
    qed
    from s d y f show ?thesis by blast
  qed
  have err: "e = TypeError \<or> e = OverflowError" if "convert_filing_financials R fin = Inl e" for e
    using that conv calc_growth_rates_errors[of uniq e] by (auto split: if_splits)
  from total err res year_part_eq show ?thesis by blast
qed

lemma ex_convert_eval:
  "convert_filing_financials (\<lambda>_. [])
     [[(cps ''year'', PStr (cps ''2024.1Q'')), (cps ''revenue'', PInt 25)],
      [(cps ''year'', PStr (cps ''2023'')), (cps ''revenue'', PInt 100)],
      [(cps ''year'', PStr (cps ''20241231'')), (cps ''revenue'', PInt 150)]]
   = Inr [[(cps ''year'', PStr (cps ''2023'')), (cps ''revenue'', PInt 100),
           (cps ''operating_income'', PNone), (cps ''net_income'', PNone),
           (cps ''total_assets'', PNone), (cps ''total_liabilities'', PNone),
           (cps ''total_equity'', PNone), (cps ''operating_cashflow'', PNone),
           (cps ''source'', PStr source_label)],
          [(cps ''year'', PStr (cps ''2024'')), (cps ''revenue'', PInt 25),
           (cps ''operating_income'', PNone), (cps ''net_income'', PNone),
           (cps ''total_assets'', PNone), (cps ''total_liabilities'', PNone),
           (cps ''total_equity'', PNone), (cps ''operating_cashflow'', PNone),
           (cps ''source'', PStr source_label),
           (cps ''revenue_yoy'', PFloat (Finite (- (3 / 4))))]]"
  by (simp add: convert_filing_financials_def convert_row_def item_year_def py_str_def
      year_part_def dot_def item_keys_def dict_get_def row_year_def Let_def cps_def
      growth_eval)
lemma dict_get_map_of_cong: "map_of a = map_of b \<Longrightarrow> dict_get a = dict_get b"
  by (auto simp: dict_get_def fun_eq_iff)

lemma merge_offering_data_cong:
  assumes "map_of d = map_of d'" and "rel_option (\<lambda>a b. map_of a = map_of b) c c'"
  shows "map_of (merge_offering_data d c) = map_of (merge_offering_data d' c')"
proof (cases c)
  case None
  with assms(2) have "c' = None" by (cases c') auto
  with None assms(1) show ?thesis by (simp add: merge_offering_data_def)
next
  case (Some cd)
  with assms(2) obtain cd' where c': "c' = Some cd'" and m: "map_of cd = map_of cd'"
    by (cases c') auto
  from m have "dict_get cd = dict_get cd'" by (rule dict_get_map_of_cong)
  then show ?thesis
    using assms(1) Some c' by (auto simp: fun_eq_iff map_of_merge_offering_data)
qed

lemma convert_filing_financials_cong:
  assumes "list_all2 (\<lambda>a b. map_of a = map_of b) fin fin'"
  shows "convert_filing_financials R fin = convert_filing_financials R fin'"
proof -
  from assms have "map (convert_row R) fin = map (convert_row R) fin'"
    by (induction rule: list_all2_induct) (auto intro: map_of_convert_row_cong)
  then show ?thesis by (simp add: convert_filing_financials_def)
qed

text \<open>
  Claim C4. Both functions are functions of the contents of their inputs alone: two runs
  of \<open>merge_offering_data\<close> on inputs that are equal as dictionaries (whatever the order
  their keys were inserted in) return equal dictionaries, and two runs of
  \<open>_convert_filing_financials\<close> on lists of equal dictionaries return the same list, or
  raise the same exception. In particular two runs on the same inputs agree.
\<close>

theorem merge_and_convert_deterministic:
  "(map_of d = map_of d' \<and> rel_option (\<lambda>a b. map_of a = map_of b) c c' \<longrightarrow>
      map_of (merge_offering_data d c) = map_of (merge_offering_data d' c')) \<and>
   (list_all2 (\<lambda>a b. map_of a = map_of b) fin fin' \<longrightarrow>
      convert_filing_financials R fin = convert_filing_financials R fin')"
  using merge_offering_data_cong convert_filing_financials_cong by blast

text \<open>The hypotheses of the theorem for C4 hold on dictionaries whose keys are permuted.\<close>

theorem merge_and_convert_deterministic_witness:
  "map_of [(cps ''a'', PInt 1), (cps ''b'', PInt 2)] = map_of [(cps ''b'', PInt 2), (cps ''a'', PInt 1)]
   \<and> rel_option (\<lambda>a b. map_of a = map_of b)
        (Some [(cps ''confirmed_price'', PStr (cps ''5000''))])
        (Some [(cps ''confirmed_price'', PStr (cps ''5000''))])
   \<and> map_of (merge_offering_data [(cps ''a'', PInt 1), (cps ''b'', PInt 2)]
         (Some [(cps ''confirmed_price'', PStr (cps ''5000''))]))
     = map_of (merge_offering_data [(cps ''b'', PInt 2), (cps ''a'', PInt 1)]
         (Some [(cps ''confirmed_price'', PStr (cps ''5000''))]))
   \<and> list_all2 (\<lambda>a b. map_of a = map_of b)
        [[(cps ''year'', PStr (cps ''2023'')), (cps ''revenue'', PInt 100)]]
        [[(cps ''revenue'', PInt 100), (cps ''year'', PStr (cps ''2023''))]]
   \<and> convert_filing_financials (\<lambda>_. []) [[(cps ''year'', PStr (cps ''2023'')), (cps ''revenue'', PInt 100)]]
     = convert_filing_financials (\<lambda>_. []) [[(cps ''revenue'', PInt 100), (cps ''year'', PStr (cps ''2023''))]]"
proof -
  have a: "map_of [(cps ''a'', PInt 1), (cps ''b'', PInt 2)]
         = map_of [(cps ''b'', PInt 2), (cps ''a'', PInt 1)]"
    by (auto simp: fun_eq_iff)
  have b: "rel_option (\<lambda>a b. map_of a = map_of b)
        (Some [(cps ''confirmed_price'', PStr (cps ''5000''))])
        (Some [(cps ''confirmed_price'', PStr (cps ''5000''))])"
    by simp
  have c: "list_all2 (\<lambda>a b. map_of a = map_of b)
        [[(cps ''year'', PStr (cps ''2023'')), (cps ''revenue'', PInt 100)]]
        [[(cps ''revenue'', PInt 100), (cps ''year'', PStr (cps ''2023''))]]"
    by (auto simp: fun_eq_iff)
  note t = merge_and_convert_deterministic[of
      "[(cps ''a'', PInt 1), (cps ''b'', PInt 2)]" "[(cps ''b'', PInt 2), (cps ''a'', PInt 1)]"
      "Some [(cps ''confirmed_price'', PStr (cps ''5000''))]"
      "Some [(cps ''confirmed_price'', PStr (cps ''5000''))]"
      "[[(cps ''year'', PStr (cps ''2023'')), (cps ''revenue'', PInt 100)]]"
      "[[(cps ''revenue'', PInt 100), (cps ''year'', PStr (cps ''2023''))]]" "\<lambda>_. []"]
  from t a b c show ?thesis by blast
qed


text \<open>
  The hypotheses of the theorem for C10 hold on three extracted rows for \<open>'2024.1Q'\<close>,
  \<open>'2023'\<close> and \<open>'20241231'\<close>: the years returned are 2023 and 2024, and the row kept
  for 2024 is the quarterly one, which comes first.
\<close>

theorem convert_filing_financials_years_witness:
  "list_all numeric_fields
     [[(cps ''year'', PStr (cps ''2024.1Q'')), (cps ''revenue'', PInt 25)],
      [(cps ''year'', PStr (cps ''2023'')), (cps ''revenue'', PInt 100)],
      [(cps ''year'', PStr (cps ''20241231'')), (cps ''revenue'', PInt 150)]]
   \<and> (\<exists>out. convert_filing_financials (\<lambda>_. [])
     [[(cps ''year'', PStr (cps ''2024.1Q'')), (cps ''revenue'', PInt 25)],
      [(cps ''year'', PStr (cps ''2023'')), (cps ''revenue'', PInt 100)],
      [(cps ''year'', PStr (cps ''20241231'')), (cps ''revenue'', PInt 150)]] = Inr out
     \<and> map row_year out = [cps ''2023'', cps ''2024'']
     \<and> sorted_wrt (<) (map row_year out) \<and> distinct (map row_year out)
     \<and> dict_get (out ! 1) (cps ''revenue'') = PInt 25)"
proof -
  define fin where "fin =
     [[(cps ''year'', PStr (cps ''2024.1Q'')), (cps ''revenue'', PInt 25)],
      [(cps ''year'', PStr (cps ''2023'')), (cps ''revenue'', PInt 100)],
      [(cps ''year'', PStr (cps ''20241231'')), (cps ''revenue'', PInt 150)]]"
  have n: "list_all numeric_fields fin"
    by (simp add: fin_def numeric_fields_def float_sized_def growth_fields_def dict_get_def)
  note t = convert_filing_financials_years[of fin "\<lambda>_. []"]
  from t[THEN conjunct1, rule_format, OF n]
  obtain out where out: "convert_filing_financials (\<lambda>_. []) fin = Inr out" ..
  note r = t[THEN conjunct2, THEN conjunct2, THEN conjunct1, rule_format, OF out]
  from r have s: "sorted_wrt (<) (map row_year out)" by (rule conjunct1)
  from r have d: "distinct (map row_year out)" by (rule conjunct2[THEN conjunct1])
  have outv: "out = [[(cps ''year'', PStr (cps ''2023'')), (cps ''revenue'', PInt 100),
           (cps ''operating_income'', PNone), (cps ''net_income'', PNone),
           (cps ''total_assets'', PNone), (cps ''total_liabilities'', PNone),
           (cps ''total_equity'', PNone), (cps ''operating_cashflow'', PNone),
           (cps ''source'', PStr source_label)],
          [(cps ''year'', PStr (cps ''2024'')), (cps ''revenue'', PInt 25),
           (cps ''operating_income'', PNone), (cps ''net_income'', PNone),
           (cps ''total_assets'', PNone), (cps ''total_liabilities'', PNone),
           (cps ''total_equity'', PNone), (cps ''operating_cashflow'', PNone),
           (cps ''source'', PStr source_label),
           (cps ''revenue_yoy'', PFloat (Finite (- (3 / 4))))]]"
    using out unfolding fin_def ex_convert_eval by (rule sum.inject(2)[THEN iffD1, symmetric])
  have e1: "map row_year out = [cps ''2023'', cps ''2024'']"
    unfolding outv by (simp add: row_year_def dict_get_def)
  have e2: "dict_get (out ! 1) (cps ''revenue'') = PInt 25"
    unfolding outv by (simp add: dict_get_def)
  from out s d e1 e2 have all: "convert_filing_financials (\<lambda>_. []) fin = Inr out
     \<and> map row_year out = [cps ''2023'', cps ''2024'']
     \<and> sorted_wrt (<) (map row_year out) \<and> distinct (map row_year out)
     \<and> dict_get (out ! 1) (cps ''revenue'') = PInt 25" by (intro conjI)
  have "\<exists>out. convert_filing_financials (\<lambda>_. []) fin = Inr out
     \<and> map row_year out = [cps ''2023'', cps ''2024'']
     \<and> sorted_wrt (<) (map row_year out) \<and> distinct (map row_year out)
     \<and> dict_get (out ! 1) (cps ''revenue'') = PInt 25" by (rule exI[of _ out]) (rule all)
  with n show ?thesis unfolding fin_def by (rule conjI)
qed


subsection \<open>re.search and the first matching offset\<close>

lemma find_map_Suc: "find P (map Suc xs) = map_option Suc (find (\<lambda>i. P (Suc i)) xs)"
  by (induction xs) auto

lemma upt_Suc_shift: "[0..<Suc (Suc n)] = 0 # map Suc [0..<Suc n]"
  by (simp only: map_Suc_upt upt_conv_Cons[of 0 "Suc (Suc n)"])

lemma re_search_first_match:
  "re_search U p s i = map_option (\<lambda>j. i + j) (first_match U p s)"
proof (induction s arbitrary: i)
  case Nil
  then show ?case by (simp add: first_match_def)
next
  case (Cons x xs)
  have "first_match U p (x # xs) =
      (if rx_match U p (x # xs) then Some 0 else map_option Suc (first_match U p xs))"
    unfolding first_match_def length_Cons upt_Suc_shift[of "length xs"]
    by (simp add: find_map_Suc del: upt_Suc)
  then show ?case using Cons.IH[of "Suc i"]
    by (cases "first_match U p xs") auto
qed

lemma first_match_le: "first_match U p s = Some i \<Longrightarrow> i \<le> length s"
  unfolding first_match_def by (auto simp: find_Some_iff less_Suc_eq_le simp del: upt_Suc)

lemma py_slice_forward:
  assumes "0 \<le> m" "i \<le> length xs"
  shows "py_slice xs (int i) (min (int (length xs)) (int i + m)) = take (nat m) (drop i xs)"
proof -
  have "nat (min (int (length xs)) (int i + m) - int i) = min (length xs - i) (nat m)"
    using assms by (auto simp: min_def)
  then show ?thesis using assms
    by (simp add: py_slice_def Let_def min_def take_all)
qed

lemma title_phase_spec:
  assumes "0 \<le> m"
  shows "title_phase U html kws m =
     (case find (\<lambda>kw. first_match U (title_pattern kw) html \<noteq> None) kws of
        Some kw \<Rightarrow>
          (case first_match U (title_pattern kw) html of
             Some i \<Rightarrow> Some (take (nat m) (drop i html))
           | None \<Rightarrow> None)
      | None \<Rightarrow> None)"
proof (induction kws)
  case Nil
  then show ?case by simp
next
  case (Cons kw kws)
  show ?case
  proof (cases "first_match U (title_pattern kw) html")
    case None
    then show ?thesis using Cons.IH by (simp add: re_search_first_match)
  next
    case (Some i)
    then show ?thesis
      using py_slice_forward[OF assms first_match_le[OF Some]]
      by (simp add: re_search_first_match)
  qed
qed

subsection \<open>str.find and the occurrences the scan visits\<close>

lemma find_at_None:
  "find_at sub s off = None \<Longrightarrow> occurrences sub klen s off 0 = []"
  by (induction s arbitrary: off) (auto split: if_splits)

lemma find_at_bounds:
  "find_at sub s off = Some i \<Longrightarrow> off \<le> i \<and> i \<le> off + length s"
proof (induction s arbitrary: off)
  case Nil
  then show ?case by (auto split: if_splits)
next
  case (Cons x xs)
  show ?case
  proof (cases "prefix sub (x # xs)")
    case True
    with Cons.prems show ?thesis by simp
  next
    case False
    with Cons.prems have "find_at sub xs (Suc off) = Some i" by simp
    from Cons.IH[OF this] show ?thesis by simp
  qed
qed

lemma find_at_Some:
  "find_at sub s off = Some i \<Longrightarrow>
     occurrences sub klen s off 0 =
       (if i - off < length s
        then i # occurrences sub klen (drop (Suc (i - off)) s) (Suc i) (klen - 1)
        else [i])"
proof (induction s arbitrary: off)
  case Nil
  then show ?case by (auto split: if_splits)
next
  case (Cons x xs)
  show ?case
  proof (cases "prefix sub (x # xs)")
    case True
    with Cons.prems show ?thesis by simp
  next
    case False
    with Cons.prems have f: "find_at sub xs (Suc off) = Some i" by simp
    from find_at_bounds[OF f] have b: "Suc off \<le> i" by simp
    then have e: "i - off = Suc (i - Suc off)" by simp
    from Cons.IH[OF f] False show ?thesis unfolding e by simp
  qed
qed

lemma occurrences_skip:
  "occurrences sub klen s off skip =
     (if skip \<le> length s then occurrences sub klen (drop skip s) (off + skip) 0 else [])"
proof (induction s arbitrary: off skip)
  case Nil
  then show ?case by simp
next
  case (Cons x xs)
  show ?case
  proof (cases skip)
    case 0
    then show ?thesis by simp
  next
    case (Suc k)
    then show ?thesis using Cons.IH[of "Suc off" k] by simp
  qed
qed


lemma occs_from_find_neg:
  "py_find hl sub start < 0 \<Longrightarrow> occs_from sub klen hl start = []"
  by (auto simp: occs_from_def py_find_def find_at_None split: if_splits option.splits)

lemma occs_from_find_pos:
  assumes "\<not> py_find hl sub start < 0" "0 < klen"
  shows "occs_from sub klen hl start =
           nat (py_find hl sub start) # occs_from sub klen hl (nat (py_find hl sub start) + klen)
       \<and> start \<le> nat (py_find hl sub start) \<and> nat (py_find hl sub start) \<le> length hl"
proof -
  from assms(1) have s: "start \<le> length hl" by (auto simp: py_find_def split: if_splits)
  with assms(1) obtain i where f: "find_at sub (drop start hl) start = Some i"
    and p: "py_find hl sub start = int i"
    by (auto simp: py_find_def split: option.splits)
  from find_at_bounds[OF f] s have b: "start \<le> i" "i \<le> length hl" by auto
  have "occurrences sub klen (drop start hl) start 0 = i # occs_from sub klen hl (i + klen)"
  proof (cases "i < length hl")
    case True
    then have lt: "i - start < length (drop start hl)" using b by simp
    have d: "drop (Suc (i - start)) (drop start hl) = drop (Suc i) hl" using b by simp
    have "occurrences sub klen (drop (Suc i) hl) (Suc i) (klen - 1) = occs_from sub klen hl (i + klen)"
    proof (cases "i + klen \<le> length hl")
      case True
      then have "klen - 1 \<le> length (drop (Suc i) hl)" using assms(2) by simp
      moreover have "drop (klen - 1) (drop (Suc i) hl) = drop (i + klen) hl"
        using assms(2) by (simp add: add.commute)
      moreover have "Suc i + (klen - 1) = i + klen" using assms(2) by simp
      ultimately show ?thesis using True
        by (subst occurrences_skip) (simp add: occs_from_def)
    next
      case False
      then have "\<not> klen - 1 \<le> length (drop (Suc i) hl)" using assms(2) \<open>i < length hl\<close> by simp
      then show ?thesis using False
        by (subst occurrences_skip) (simp add: occs_from_def)
    qed
    with find_at_Some[OF f, of klen] lt d show ?thesis by simp
  next
    case False
    with b have e: "i = length hl" by simp
    then have "\<not> i - start < length (drop start hl)" by simp
    with find_at_Some[OF f, of klen] have "occurrences sub klen (drop start hl) start 0 = [i]"
      by simp
    moreover have "occs_from sub klen hl (i + klen) = []" using e assms(2) by (simp add: occs_from_def)
    ultimately show ?thesis by simp
  qed
  with s p b show ?thesis by (simp add: occs_from_def)
qed

lemma py_slice_around:
  assumes "0 \<le> m"
  shows "py_slice html (max 0 (int i - 200)) (min (int (length html)) (int i + m))
       = slice_around html (nat m) i"
proof -
  obtain m' where m': "m = int m'" using assms by (rule nonneg_int_cases)
  define k where "k = i - 200"
  define n where "n = length html"
  have ki: "k \<le> i" by (simp add: k_def)
  have st: "max 0 (int i - 200) = int k" by (simp add: k_def)
  have sp: "min (int n) (int i + m) = int (min n (i + m'))" by (simp add: m')
  have sl: "py_slice html (int k) (int (min n (i + m')))
      = take (min n (i + m') - min k n) (drop (min k n) html)"
    by (simp add: py_slice_def Let_def n_def nat_diff_distrib' flip: of_nat_min)
  have tk: "take (min n (i + m') - min k n) (drop (min k n) html) = take (i + m' - k) (drop k html)"
  proof (cases "k \<le> n")
    case True
    then have mk: "min k n = k" by simp
    have "min n (i + m') - k = min (length (drop k html)) (i + m' - k)"
      by (simp add: n_def min_def)
    then show ?thesis unfolding mk by (simp only: take_all_iff min_def take_all split: if_splits) auto
  next
    case False
    then show ?thesis by (simp add: n_def)
  qed
  have "py_slice html (max 0 (int i - 200)) (min (int (length html)) (int i + m))
      = py_slice html (int k) (int (min n (i + m')))"
    by (simp only: st sp[unfolded n_def] n_def)
  also have "\<dots> = take (i + m' - k) (drop k html)" by (simp only: sl tk)
  also have "\<dots> = slice_around html (nat m) i" by (simp add: slice_around_def k_def m')
  finally show ?thesis .
qed


lemma scan_keyword_fold:
  assumes "kw \<noteq> []" "0 \<le> m"
  shows "scan_keyword U html hl kw m bs sc start =
     Some (fold (best_step U)
             (map (slice_around html (nat m)) (occs_from (str_lower U kw) (length kw) hl start))
             (bs, sc))"
proof (induction "Suc (length hl) - start" arbitrary: start bs sc rule: less_induct)
  case less
  let ?sub = "str_lower U kw"
  let ?idx = "py_find hl ?sub start"
  show ?case
  proof (cases "?idx < 0")
    case True
    then show ?thesis
      by (subst scan_keyword.simps) (simp add: occs_from_find_neg)
  next
    case False
    define i where "i = nat ?idx"
    from False have idx: "?idx = int i" by (simp add: i_def)
    from assms(1) have kl: "0 < length kw" by simp
    from occs_from_find_pos[OF False kl] have
      oc: "occs_from ?sub (length kw) hl start = i # occs_from ?sub (length kw) hl (i + length kw)"
      and b: "start \<le> i" "i \<le> length hl"
      by (simp_all add: i_def)
    have dec: "Suc (length hl) - (i + length kw) < Suc (length hl) - start"
      using b assms(1) by (cases kw) auto
    note ih = less[OF dec]
    have sl: "py_slice html (max 0 (int i - 200)) (min (int (length html)) (int i + m))
            = slice_around html (nat m) i"
      using assms(2) by (rule py_slice_around)
    show ?thesis
      apply (subst scan_keyword.simps)
      apply (simp only: Let_def idx sl nat_int)
      apply (simp add: ih oc best_step_def)
      done
  qed
qed

lemma fold_best_step:
  "fold (best_step U) cs (bs, sc) =
     (if Max (set (sc # map (section_score U) cs)) > sc
      then (case find (\<lambda>s. section_score U s = Max (set (sc # map (section_score U) cs))) cs of
              Some s \<Rightarrow> s | None \<Rightarrow> [],
            Max (set (sc # map (section_score U) cs)))
      else (bs, sc))"
proof (induction cs arbitrary: bs sc)
  case Nil
  then show ?case by simp
next
  case (Cons c cs)
  let ?f = "section_score U"
  let ?M = "\<lambda>a. Max (set (a # map ?f cs))"
  have fin: "finite (set (map ?f cs))" by simp
  have M_ge: "?M a \<ge> a" for a by simp
  have M_ins: "Max (set (sc # map ?f (c # cs))) = max (?f c) (?M sc)"
    by (cases "cs = []") (simp_all add: max.commute max.left_commute)
  show ?case
  proof (cases "?f c > sc")
    case True
    then have st: "best_step U c (bs, sc) = (c, ?f c)" by (simp add: best_step_def)
    have Mc: "?M (?f c) = max (?f c) (?M sc)"
      using True by (cases "cs = []") (auto simp: max_def)
    show ?thesis
    proof (cases "?M (?f c) > ?f c")
      case True': True
      then have "?f c \<noteq> ?M (?f c)" by simp
      then show ?thesis
        using True True' Cons.IH[of c "?f c"] st Mc M_ins by (auto simp: max_def)
    next
      case False
      with M_ge[of "?f c"] have "?M (?f c) = ?f c" by linarith
      then show ?thesis
        using True False Cons.IH[of c "?f c"] st Mc M_ins by (auto simp: max_def)
    qed
  next
    case False
    then have st: "best_step U c (bs, sc) = (bs, sc)" by (simp add: best_step_def)
    have "?f c \<le> ?M sc" using False M_ge[of sc] by linarith
    then have Mc: "max (?f c) (?M sc) = ?M sc" by (rule max_absorb2)
    show ?thesis
    proof (cases "?M sc > sc")
      case True
      then have "?f c \<noteq> ?M sc" using False by simp
      then show ?thesis using True Cons.IH[of bs sc] st Mc M_ins by simp
    next
      case F2: False
      then show ?thesis using Cons.IH[of bs sc] st Mc M_ins by simp
    qed
  qed
qed

lemma section_score_Nil: "str_lower U [] = [] \<Longrightarrow> section_score U [] = 0"
  by (simp add: section_score_def py_count_def)

lemma occs_from_0: "occs_from sub klen hl 0 = occurrences sub klen hl 0 0"
  by (simp add: occs_from_def)

lemma scan_keyword_best:
  assumes "kw \<noteq> []" "0 \<le> m" "str_lower U [] = []"
  shows "\<exists>bs sc. scan_keyword U html (str_lower U html) kw m [] 0 0 = Some (bs, sc) \<and>
           (bs \<noteq> [] \<and> sc > 10 \<longleftrightarrow> best_score_of U (candidates U html kw (nat m)) > 10) \<and>
           (best_score_of U (candidates U html kw (nat m)) > 10 \<longrightarrow>
              bs = best_slice_of U (candidates U html kw (nat m)))"
proof -
  let ?cs = "candidates U html kw (nat m)"
  let ?M = "best_score_of U ?cs"
  have sk: "scan_keyword U html (str_lower U html) kw m [] 0 0 = Some (fold (best_step U) ?cs ([], 0))"
    using scan_keyword_fold[OF assms(1,2)] by (simp add: candidates_def occs_from_0)
  have fb: "fold (best_step U) ?cs ([], 0) =
      (if ?M > 0 then (best_slice_of U ?cs, ?M) else ([], 0))"
    by (simp add: fold_best_step best_score_of_def best_slice_of_def)
  have ne: "best_slice_of U ?cs \<noteq> []" if "?M > 0"
  proof -
    have "?M \<in> set (0 # map (section_score U) ?cs)"
      unfolding best_score_of_def by (rule Max_in) simp_all
    with that have "?M \<in> section_score U ` set ?cs" by auto
    then obtain s where s: "s \<in> set ?cs" "section_score U s = ?M" by auto
    then obtain s' where f: "find (\<lambda>s. section_score U s = ?M) ?cs = Some s'"
      by (cases "find (\<lambda>s. section_score U s = ?M) ?cs") (auto simp: find_None_iff)
    then have "section_score U s' = ?M" by (auto simp: find_Some_iff)
    with that section_score_Nil[OF assms(3)] have "s' \<noteq> []" by auto
    with f show ?thesis by (simp add: best_slice_of_def)
  qed
  show ?thesis
  proof (cases "?M > 0")
    case True
    with sk fb ne show ?thesis by auto
  next
    case False
    with sk fb show ?thesis by auto
  qed
qed

lemma text_phase_spec:
  assumes "\<forall>kw\<in>set kws. kw \<noteq> []" "0 \<le> m" "str_lower U [] = []"
  shows "text_phase U html (str_lower U html) kws m =
     Some (case find (\<lambda>kw. best_score_of U (candidates U html kw (nat m)) > 10) kws of
             Some kw \<Rightarrow> best_slice_of U (candidates U html kw (nat m))
           | None \<Rightarrow> [])"
  using assms(1)
proof (induction kws)
  case Nil
  then show ?case by simp
next
  case (Cons kw kws)
  then have kw: "kw \<noteq> []" and rest: "\<forall>kw\<in>set kws. kw \<noteq> []" by auto
  from scan_keyword_best[OF kw assms(2,3), of html] obtain bs sc where
    s: "scan_keyword U html (str_lower U html) kw m [] 0 0 = Some (bs, sc)"
    and c: "bs \<noteq> [] \<and> sc > 10 \<longleftrightarrow> best_score_of U (candidates U html kw (nat m)) > 10"
    and b: "best_score_of U (candidates U html kw (nat m)) > 10 \<longrightarrow>
              bs = best_slice_of U (candidates U html kw (nat m))"
    by blast
  show ?case
  proof (cases "best_score_of U (candidates U html kw (nat m)) > 10")
    case True
    with s c b show ?thesis by simp
  next
    case False
    with c have "\<not> (bs \<noteq> [] \<and> sc > 10)" by simp
    with s False Cons.IH[OF rest] show ?thesis by auto
  qed
qed

lemma extract_section_spec:
  assumes "\<forall>kw\<in>set kws. kw \<noteq> []" "0 \<le> m" "str_lower U [] = []"
  shows "extract_section U html kws m = Some (spec_extract_section U html kws (nat m))"
proof (cases "find (\<lambda>kw. first_match U (title_pattern kw) html \<noteq> None) kws")
  case None
  then show ?thesis
    by (simp add: extract_section_def spec_extract_section_def title_phase_spec[OF assms(2)]
        text_phase_spec[OF assms])
next
  case (Some kw)
  then have "first_match U (title_pattern kw) html \<noteq> None" by (auto simp: find_Some_iff)
  then obtain i where "first_match U (title_pattern kw) html = Some i" by auto
  with Some show ?thesis
    by (simp add: extract_section_def spec_extract_section_def title_phase_spec[OF assms(2)])
qed

lemma find_at_Nil: "find_at [] s i = Some i"
  by (cases s) simp_all

lemma scan_keyword_empty_diverges:
  assumes "str_lower U [] = []" "start \<le> length hl"
  shows "scan_keyword U html hl [] m bs sc start = None"
proof (rule ccontr)
  assume "scan_keyword U html hl [] m bs sc start \<noteq> None"
  then obtain y where y: "scan_keyword U html hl [] m bs sc start = Some y" by auto
  have "\<not> (([]::pystr) = [] \<and> str_lower U [] = [] \<and> start \<le> length hl)"
  proof (rule scan_keyword.raw_induct[where P =
        "\<lambda>U html hl kw m bs sc start y. \<not> (kw = [] \<and> str_lower U [] = [] \<and> start \<le> length hl)",
        OF _ y])
    fix scan V h l k n b0 s0 st r
    assume ih: "\<And>V h l k n b0 s0 st r. scan V h l k n b0 s0 st = Some r \<Longrightarrow>
                  \<not> (k = [] \<and> str_lower V [] = [] \<and> st \<le> length l)"
      and body: "(let idx = py_find l (str_lower V k) st
      in if idx < 0 then Some (b0, s0)
         else let start = max 0 (idx - 200);
                  stop = min (int (length h)) (idx + n);
                  section = py_slice h start stop;
                  score = section_score V section
              in if s0 < score
                 then scan V h l k n section score (nat idx + length k)
                 else scan V h l k n b0 s0 (nat idx + length k)) = Some r"
    show "\<not> (k = [] \<and> str_lower V [] = [] \<and> st \<le> length l)"
    proof
      assume a: "k = [] \<and> str_lower V [] = [] \<and> st \<le> length l"
      then have f: "py_find l (str_lower V k) st = int st"
        by (simp add: py_find_def find_at_Nil)
      from body a obtain b1 s1 where "scan V h l k n b1 s1 st = Some r"
        unfolding f Let_def by (auto split: if_splits)
      from ih[OF this] a show False by simp
    qed
  qed
  with assms show False by simp

qed

lemma extract_section_empty_keyword:
  assumes "str_lower U [] = []"
  shows "extract_section U [] [[]] m = None"
proof -
  have "first_match U (title_pattern []) [] = None"
    by (simp add: first_match_def title_pattern_def)
  then have "title_phase U [] [[]] m = None" by (simp add: re_search_first_match)
  moreover have "scan_keyword U [] [] [] m [] 0 0 = None"
    using assms by (intro scan_keyword_empty_diverges) simp_all
  ultimately show ?thesis using assms by (simp add: extract_section_def)
qed
lemma ascii_lower_Nil: "str_lower ascii_unicode [] = []"
  by (simp add: ascii_unicode_def)

lemma ex_overlap_eval:
  "spec_extract_section ascii_unicode (cps ''aaa<table<table<table'') [cps ''aa''] 20 = []"
  by code_simp

lemma ex_overlap_score:
  "section_score ascii_unicode (slice_around (cps ''aaa<table<table<table'') 20 1) = 15"
  by code_simp

lemma ex_text_eval:
  "spec_extract_section ascii_unicode (cps ''Lock-up <table<TABLE<table 1234'') [cps ''lock-up''] 40
     = cps ''Lock-up <table<TABLE<table 1234''"
  by code_simp

text \<open>
  Claim C3, as amended. For every HTML string, every list of non-empty keywords and every
  \<open>max_chars \<ge> 0\<close>, \<open>_extract_section\<close> returns, and what it returns is what the claim
  describes: the keywords are tried in order against the \<open>TITLE\<close> tags and the first
  keyword that matches gives the slice of at most \<open>max_chars\<close> characters from its leftmost
  match; if none matches, each keyword in order has the slices around its occurrences in
  the lower-cased text scored (the occurrences the scan visits do not overlap: the search
  resumes \<open>len(kw)\<close> after the start of the last one), the first keyword whose best score
  exceeds 10 gives its first best-scoring slice, and the result is empty when there is none.
\<close>

theorem extract_section_refines:
  assumes "\<forall>kw\<in>set keywords. kw \<noteq> []" and "0 \<le> max_chars" and "str_lower U [] = []"
  shows "extract_section U html keywords max_chars =
           Some (spec_extract_section U html keywords (nat max_chars))"
  using assms by (rule extract_section_spec)

text \<open>
  The hypotheses of the theorem for C3 hold for the keyword \<open>lock-up\<close> on a text without
  \<open>TITLE\<close> tags, with three tables and one number after the keyword.
\<close>

theorem extract_section_refines_witness:
  "list_all (\<lambda>kw. kw \<noteq> []) [cps ''lock-up''] \<and> (0::int) \<le> 40 \<and> str_lower ascii_unicode [] = [] \<and>
   extract_section ascii_unicode (cps ''Lock-up <table<TABLE<table 1234'') [cps ''lock-up''] 40
     = Some (cps ''Lock-up <table<TABLE<table 1234'')"
proof -
  have k: "\<forall>kw\<in>set [cps ''lock-up'']. kw \<noteq> []" by simp
  have m: "(0::int) \<le> 40" by simp
  note t = extract_section_refines[OF k m ascii_lower_Nil,
      of "cps ''Lock-up <table<TABLE<table 1234''"]
  have "extract_section ascii_unicode (cps ''Lock-up <table<TABLE<table 1234'') [cps ''lock-up''] 40
     = Some (cps ''Lock-up <table<TABLE<table 1234'')"
    using t by (simp only: ex_text_eval nat_numeral)
  moreover have "list_all (\<lambda>kw. kw \<noteq> []) [cps ''lock-up'']" by simp
  ultimately show ?thesis using m ascii_lower_Nil by (intro conjI)
qed

text \<open>
  Claim C3 as stated fails twice. On the keyword list \<open>[""]\<close> and an HTML string without
  \<open>TITLE\<close> tags the function never returns. And not every occurrence is scored: in
  \<open>aaa<table<table<table\<close> the keyword \<open>aa\<close> occurs at offset 1, where the slice scores
  15, but the scan goes from offset 0 to offset 2 and the function returns the empty string.
\<close>

theorem extract_section_counterexample:
  "extract_section ascii_unicode [] [[]] 10 = None \<and>
   extract_section ascii_unicode (cps ''aaa<table<table<table'') [cps ''aa''] 20 = Some [] \<and>
   prefix (str_lower ascii_unicode (cps ''aa''))
     (drop 1 (str_lower ascii_unicode (cps ''aaa<table<table<table''))) \<and>
   section_score ascii_unicode (slice_around (cps ''aaa<table<table<table'') 20 1) = 15"
proof (intro conjI)
  show "extract_section ascii_unicode [] [[]] 10 = None"
    using ascii_lower_Nil by (rule extract_section_empty_keyword)
  have k: "\<forall>kw\<in>set [cps ''aa'']. kw \<noteq> []" by simp
  have m: "(0::int) \<le> 20" by simp
  show "extract_section ascii_unicode (cps ''aaa<table<table<table'') [cps ''aa''] 20 = Some []"
    using extract_section_spec[OF k m ascii_lower_Nil, of "cps ''aaa<table<table<table''"]
    by (simp only: ex_overlap_eval nat_numeral)
  show "prefix (str_lower ascii_unicode (cps ''aa''))
     (drop 1 (str_lower ascii_unicode (cps ''aaa<table<table<table'')))"
    by (simp add: ascii_unicode_def ascii_lower_def cps_def)
  show "section_score ascii_unicode (slice_around (cps ''aaa<table<table<table'') 20 1) = 15"
    by (rule ex_overlap_score)
qed


lemma read_files_joined: "read_files acc fs = acc @ joined_files fs"
proof (induction fs arbitrary: acc)
  case Nil
  then show ?case by (simp add: joined_files_def)
next
  case (Cons f fs)
  show ?case
    by (cases "read_utf8 f"; cases "read_euckr f")
       (simp_all add: Cons.IH joined_files_def readable_def file_text_def)
qed

lemma ret_bind [simp]: "run_bind (ret a) f = f a"
  by (simp add: run_bind_def ret_def split: prod.splits)

lemma sort_key_Nil_iff [simp]: "sort_key f xs = [] \<longleftrightarrow> xs = []"
proof -
  have "length (sort_key f xs) = length xs" by simp
  then show ?thesis by (simp only: length_0_conv[symmetric])
qed

lemma load_filing_html_files:
  "load_filing_html dir =
     joined_files
       (if glob_ext ''.html'' dir = [] \<and> glob_ext ''.htm'' dir = []
        then sort_key fname (glob_ext ''.xml'' dir)
        else sort_key fname (glob_ext ''.html'' dir) @ sort_key fname (glob_ext ''.htm'' dir))"
  by (simp add: load_filing_html_def read_files_joined Let_def)

lemma parse_full_filing_empty:
  "load_filing_html dir = [] \<Longrightarrow> parse_full_filing W U dir need = ([], Returns [])"
  by (simp add: parse_full_filing_def ret_def)

text \<open>
  Claim C7, as amended. \<open>load_filing_html\<close> joins, each behind a marker line
  \<open><!-- FILE: name -->\<close>, the texts of the \<open>*.html\<close> files in sorted name order followed
  by those of the \<open>*.htm\<close> files in sorted name order, leaving out a file that can be read
  in neither encoding; it takes the \<open>*.xml\<close> files instead, sorted, if and only if there
  is no \<open>*.html\<close> and no \<open>*.htm\<close> file. A directory with none of the three kinds gives
  the empty string, and \<open>parse_full_filing\<close> then returns the empty dictionary without any
  call.
\<close>

theorem load_filing_html_spec:
  "load_filing_html dir =
     joined_files
       (if glob_ext ''.html'' dir = [] \<and> glob_ext ''.htm'' dir = []
        then sort_key fname (glob_ext ''.xml'' dir)
        else sort_key fname (glob_ext ''.html'' dir) @ sort_key fname (glob_ext ''.htm'' dir))
   \<and> (glob_ext ''.html'' dir = [] \<and> glob_ext ''.htm'' dir = [] \<and> glob_ext ''.xml'' dir = []
        \<longrightarrow> load_filing_html dir = [] \<and> parse_full_filing W U dir need = ([], Returns []))"
proof -
  have "load_filing_html dir = []"
    if "glob_ext ''.html'' dir = [] \<and> glob_ext ''.htm'' dir = [] \<and> glob_ext ''.xml'' dir = []"
    using that by (simp add: load_filing_html_files joined_files_def)
  then show ?thesis using load_filing_html_files parse_full_filing_empty by blast
qed


lemma ex_dir_eval:
  "load_filing_html ex_dir
     = file_chunk (cps ''b.html'') (cps ''B'') @ file_chunk (cps ''a.htm'') (cps ''A'')"
  by code_simp

lemma ex_dir_sorted: "map fname (sort_key fname ex_dir) = [cps ''a.htm'', cps ''b.html'']"
  by code_simp

lemma ex_dir_ne: "load_filing_html ex_dir \<noteq> cps ''AB''"
  by code_simp

lemma ex_dir_txt_globs:
  "glob_ext ''.html'' ex_dir_txt = [] \<and> glob_ext ''.htm'' ex_dir_txt = []
   \<and> glob_ext ''.xml'' ex_dir_txt = []"
  by code_simp

text \<open>The hypothesis of the theorem for C7 holds on a directory with a text file only.\<close>

theorem load_filing_html_spec_witness:
  "glob_ext ''.html'' ex_dir_txt = [] \<and> glob_ext ''.htm'' ex_dir_txt = []
   \<and> glob_ext ''.xml'' ex_dir_txt = []
   \<and> load_filing_html ex_dir_txt = []
   \<and> (\<forall>W U need. parse_full_filing W U ex_dir_txt need = ([], Returns []))"
proof -
  note g = ex_dir_txt_globs
  have "load_filing_html ex_dir_txt = [] \<and> parse_full_filing W U ex_dir_txt need = ([], Returns [])"
    for W U need
    using load_filing_html_spec[of ex_dir_txt W U need] g by blast
  with g show ?thesis by blast
qed

text \<open>
  Claim C7 as stated fails: with \<open>b.html\<close> and \<open>a.htm\<close> in the directory the sorted
  name order is \<open>a.htm\<close>, \<open>b.html\<close>, but the text of \<open>b.html\<close> comes first, and the
  result is not the two contents joined: each is behind its marker line.
\<close>

theorem load_filing_html_counterexample:
  "map fname (sort_key fname ex_dir) = [cps ''a.htm'', cps ''b.html'']
   \<and> load_filing_html ex_dir
       = file_chunk (cps ''b.html'') (cps ''B'') @ file_chunk (cps ''a.htm'') (cps ''A'')
   \<and> load_filing_html ex_dir \<noteq> cps ''AB''"
  using ex_dir_sorted ex_dir_eval ex_dir_ne by (intro conjI)

section \<open>The pipeline\<close>

subsection \<open>Runs\<close>

lemma of_exn_Inr [simp]: "of_exn (Inr a) = ret a"
  by (simp add: of_exn_def ret_def)

lemma of_exn_Inl [simp]: "of_exn (Inl e) = ([], Raises e)"
  by (simp add: of_exn_def)

lemma raise_bind [simp]: "run_bind (t, Raises e) f = (t, Raises e)"
  by (simp add: run_bind_def)

lemma diverge_bind [simp]: "run_bind (t, Diverges) f = (t, Diverges)"
  by (simp add: run_bind_def)

lemma emit_bind: "run_bind (emit e) f = (e # fst (f ()), snd (f ()))"
  by (simp add: run_bind_def emit_def split: prod.splits)

lemma returns_bind: "run_bind (t, Returns a) f = (t @ fst (f a), snd (f a))"
  by (simp add: run_bind_def split: prod.splits)

text \<open>The steps that do not call the crawler do not depend on it.\<close>

lemma world_crawler_fields:
  "search_corp_code (W\<lparr>search_38 := s\<rparr>) = search_corp_code W"
  "get_company_info (W\<lparr>search_38 := s\<rparr>) = get_company_info W"
  "search_filings (W\<lparr>search_38 := s\<rparr>) = search_filings W"
  "equity_offering (W\<lparr>search_38 := s\<rparr>) = equity_offering W"
  "financial_summary (W\<lparr>search_38 := s\<rparr>) = financial_summary W"
  "download_document (W\<lparr>search_38 := s\<rparr>) = download_document W"
  "call_llm (W\<lparr>search_38 := s\<rparr>) = call_llm W"
  "extract_json (W\<lparr>search_38 := s\<rparr>) = extract_json W"
  "analysis_llm (W\<lparr>search_38 := s\<rparr>) = analysis_llm W"
  "py_render (W\<lparr>search_38 := s\<rparr>) = py_render W"
  "py_int (W\<lparr>search_38 := s\<rparr>) = py_int W"
  "mkdir_reports (W\<lparr>search_38 := s\<rparr>) = mkdir_reports W"
  "write_report (W\<lparr>search_38 := s\<rparr>) = write_report W"
  "sheet_title (W\<lparr>search_38 := s\<rparr>) = sheet_title W"
  "cell_value (W\<lparr>search_38 := s\<rparr>) = cell_value W"
  "save_workbook (W\<lparr>search_38 := s\<rparr>) = save_workbook W"
  "write_json (W\<lparr>search_38 := s\<rparr>) = write_json W"
  by simp_all

lemma writers_crawler:
  "save_report (W\<lparr>search_38 := s\<rparr>) = save_report W"
  "generate_excel (W\<lparr>search_38 := s\<rparr>) = generate_excel W"
  "save_raw_data (W\<lparr>search_38 := s\<rparr>) = save_raw_data W"
  by (simp_all add: fun_eq_iff save_report_def generate_excel_def save_raw_data_def)

lemma parse_full_filing_crawler:
  "parse_full_filing (W\<lparr>search_38 := s\<rparr>) U dir need = parse_full_filing W U dir need"
  unfolding parse_full_filing_def extract_three_def extract_fallback_def
    extract_lockup_schedule_def extract_business_summary_def
    extract_financials_from_filing_def extract_peer_valuation_def peer_pass_def
    peer_call_def valuation_pass_def
    extract_with_def world_crawler_fields
  by (rule refl)

lemma step_2_crawler: "step_2 (W\<lparr>search_38 := s\<rparr>) code = step_2 W code"
  unfolding step_2_def world_crawler_fields by (rule refl)

lemma step_4_crawler:
  "step_4 (W\<lparr>search_38 := s\<rparr>) U sf r c = step_4 W U sf r c"
  unfolding step_4_def integrate_filing_def parse_full_filing_crawler world_crawler_fields
  by (rule refl)

lemma step_5_6_crawler:
  "step_5_6 (W\<lparr>search_38 := s\<rparr>) name sa c = step_5_6 W name sa c"
  unfolding step_5_6_def step_5_def step_6_def generate_analysis_def world_crawler_fields
    writers_crawler
  by (rule refl)

lemma step_3_raises:
  "search_38 W name = Inl e \<Longrightarrow> step_3 W name collected = ([Crawled name], Returns collected)"
  by (simp add: step_3_def emit_bind ret_def)

lemma step_3_absent:
  "search_38 W name = Inr None \<Longrightarrow> step_3 W name collected = ([Crawled name], Returns collected)"
  by (simp add: step_3_def emit_bind ret_def)

lemma run_pipeline_crawl_raises:
  assumes "search_38 W name = Inl e"
  shows "run_pipeline W U name sf sa
       = run_pipeline (W\<lparr>search_38 := \<lambda>_. Inr None\<rparr>) U name sf sa"
proof -
  have "step_3 (W\<lparr>search_38 := \<lambda>_. Inr None\<rparr>) name c = step_3 W name c" for c
    using assms by (simp add: step_3_raises step_3_absent)
  then show ?thesis
    unfolding run_pipeline_def steps_1_to_4_def step_2_crawler step_4_crawler step_5_6_crawler
      world_crawler_fields
    by simp
qed

subsection \<open>A section under a title tag is located\<close>

lemma rx_match_Lit_append:
  assumes "\<And>c. ci_match U c c"
  shows "rx_match U (Lit p # rs) (p @ s) = rx_match U rs s"
proof -
  have "list_all2 (ci_match U) p p" using assms by (simp add: list_all2_same)
  then show ?thesis by simp
qed

lemma rx_match_NotStar_skip: "rx_match U rs s \<Longrightarrow> rx_match U (NotStar c # rs) s"
  by (cases s) simp_all

lemma title_tag_matches:
  assumes "\<And>c. ci_match U c c"
  shows "rx_match U (title_pattern kw) (title_tag kw @ post)"
proof -
  have s: "title_tag kw @ post = cps ''<TITLE'' @ ([gt] @ (kw @ (cps ''</TITLE>'' @ post)))"
    by (simp add: title_tag_def gt_def cps_def)
  show ?thesis
    unfolding s title_pattern_def
    by (simp only: rx_match_Lit_append[OF assms] rx_match_NotStar_skip rx_match.simps(1))
qed

lemma title_pattern_no_empty: "\<not> rx_match U (title_pattern kw) []"
  by (simp add: title_pattern_def)

lemma first_match_exists:
  assumes "rx_match U p (drop j html)" "j \<le> length html"
  shows "first_match U p html \<noteq> None"
proof -
  have "j \<in> set [0..<Suc (length html)]" using assms(2) by (simp add: less_Suc_eq_le del: upt_Suc)
  with assms(1) show ?thesis unfolding first_match_def find_None_iff by blast
qed

lemma first_match_holds: "first_match U p html = Some i \<Longrightarrow> rx_match U p (drop i html)"
  unfolding first_match_def by (auto simp: find_Some_iff)

lemma title_located:
  assumes refl: "\<And>c. ci_match U c c" and html: "html = pre @ title_tag kw @ post" and m: "0 < m"
  shows "located U html (kw # kws) m"
proof -
  have "rx_match U (title_pattern kw) (drop (length pre) html)"
    unfolding html using title_tag_matches[OF refl] by simp
  moreover have "length pre \<le> length html" by (simp add: html)
  ultimately have "first_match U (title_pattern kw) html \<noteq> None" by (rule first_match_exists)
  then obtain i where i: "first_match U (title_pattern kw) html = Some i" by auto
  from first_match_le[OF i] first_match_holds[OF i] title_pattern_no_empty[of U kw]
  have lt: "i < length html" by (cases "i = length html") auto
  have m0: "0 \<le> m" using m by simp
  have "title_phase U html (kw # kws) m = Some (take (nat m) (drop i html))"
    using i by (simp add: title_phase_spec[OF m0])
  moreover have "take (nat m) (drop i html) \<noteq> []" using lt m by simp
  ultimately show ?thesis by (simp add: located_def extract_section_def)
qed

lemma extract_with_located:
  assumes "located U html kws m"
  shows "\<exists>s. s \<noteq> [] \<and> extract_with W U p kws m l html =
     (case call_llm W p (take l s) of
        Inl e \<Rightarrow> ([LLM_call p], Raises e)
      | Inr r \<Rightarrow> ([LLM_call p], Returns (extract_json W r)))"
proof -
  from assms obtain s where s: "extract_section U html kws m = Some s" "s \<noteq> []"
    by (auto simp: located_def split: option.splits)
  have "extract_with W U p kws m l html =
     (case call_llm W p (take l s) of
        Inl e \<Rightarrow> ([LLM_call p], Raises e)
      | Inr r \<Rightarrow> ([LLM_call p], Returns (extract_json W r)))"
    using s by (cases "call_llm W p (take l s)")
      (simp_all add: extract_with_def of_option_def returns_bind emit_bind ret_def)
  with s(2) show ?thesis by blast
qed

subsection \<open>Traces and outcomes of composed runs\<close>

lemma fst_bind:
  "fst (run_bind m f) = fst m @ (case snd m of Returns a \<Rightarrow> fst (f a) | _ \<Rightarrow> [])"
  by (cases m; cases "snd m") (auto simp: run_bind_def split: prod.splits)

lemma snd_bind:
  "snd (run_bind m f) =
     (case snd m of Returns a \<Rightarrow> snd (f a) | Raises e \<Rightarrow> Raises e | Diverges \<Rightarrow> Diverges)"
  by (cases m; cases "snd m") (auto simp: run_bind_def split: prod.splits)

lemma run_simps [simp]:
  "fst (ret a) = []" "snd (ret a) = Returns a"
  "fst (emit e) = [e]" "snd (emit e) = Returns ()"
  "fst (of_exn x) = []" "snd (of_exn x) = (case x of Inl e \<Rightarrow> Raises e | Inr a \<Rightarrow> Returns a)"
  "fst (of_option y) = []" "snd (of_option y) = (case y of None \<Rightarrow> Diverges | Some a \<Rightarrow> Returns a)"
  by (simp_all add: ret_def emit_def of_exn_def of_option_def split: sum.splits option.splits)

text \<open>A run without events stays without events when it is followed by one.\<close>

lemma silent_bind:
  "fst m = [] \<Longrightarrow> (\<And>a. fst (f a) = []) \<Longrightarrow> fst (run_bind m f) = []"
  by (simp add: fst_bind split: outcome.splits)

lemma fst_len_check [simp]: "fst (len_check v) = []"
  by (simp add: len_check_def split: option.splits)

lemma fst_extract_with_located:
  assumes "located U html kws m"
  shows "fst (extract_with W U p kws m l html) = [LLM_call p]"
proof -
  from extract_with_located[OF assms, of W p l] obtain s where
    "extract_with W U p kws m l html =
     (case call_llm W p (take l s) of
        Inl e \<Rightarrow> ([LLM_call p], Raises e)
      | Inr r \<Rightarrow> ([LLM_call p], Returns (extract_json W r)))" by blast
  then show ?thesis by (simp split: sum.splits)
qed

lemma fst_read_peer_data [simp]: "fst (read_peer_data vs pd) = []"
proof (cases "truthy pd")
  case False
  then show ?thesis by (simp add: read_peer_data_def)
next
  case True
  then show ?thesis
    by (cases pd) (simp_all add: read_peer_data_def Let_def silent_bind)
qed

lemma fst_finish_valuation [simp]: "fst (finish_valuation vp) = []"
  by (cases vp) (simp add: finish_valuation_def)

lemma combined_sections_ne:
  "peer_section \<noteq> [] \<or> per_section \<noteq> [] \<Longrightarrow> combined_sections peer_section per_section \<noteq> []"
  by (auto simp: combined_sections_def per_header_def peer_header_def)

lemma fst_peer_call:
  assumes "peer_section \<noteq> [] \<or> per_section \<noteq> []"
  shows "fst (peer_call W vs peer_section per_section) = [LLM_call Peers]"
proof -
  have "fst (run_bind (of_exn (call_llm W Peers c)) (\<lambda>result.
              read_peer_data vs (extract_json W result))) = []" for c
    by (rule silent_bind) simp_all
  then show ?thesis
    using assms combined_sections_ne[OF assms]
    by (simp add: peer_call_def Let_def fst_bind)
qed

lemma fst_peer_pass:
  assumes "peer_section \<noteq> [] \<or> per_section \<noteq> []"
  shows "fst (peer_pass W vs peer_section per_section) = [LLM_call Peers]"
  by (simp add: peer_pass_def fst_bind fst_peer_call[OF assms] split: outcome.splits)

lemma fst_valuation_pass:
  "val_section \<noteq> [] \<Longrightarrow> fst (valuation_pass W val_section) = [LLM_call Valuation_summary]"
proof -
  have "fst (run_bind (of_exn (call_llm W Valuation_summary c)) (\<lambda>result.
        let v = extract_json W result in ret (if truthy v then v else PDict []))) = []" for c
    by (rule silent_bind) (simp_all add: Let_def)
  then show "val_section \<noteq> [] \<Longrightarrow> fst (valuation_pass W val_section) = [LLM_call Valuation_summary]"
    by (simp add: valuation_pass_def fst_bind)
qed

lemma bind_ReturnsE:
  assumes "snd (run_bind m f) = Returns b"
  obtains a where "snd m = Returns a" "snd (f a) = Returns b"
    "fst (run_bind m f) = fst m @ fst (f a)"
  using assms by (cases "snd m") (auto simp: snd_bind fst_bind)

lemma of_option_Some [simp]: "of_option (Some a) = ret a"
  by (simp add: of_option_def ret_def)

lemma locatedE:
  assumes "located U html kws m"
  obtains s where "extract_section U html kws m = Some s" "s \<noteq> []"
  using assms by (auto simp: located_def split: option.splits)

lemma fst_extract_peer_valuation:
  assumes "located U html valuation_keywords 20000" "located U html peer_keywords 25000"
    "located U html per_keywords 15000"
    and r: "snd (extract_peer_valuation W U html) = Returns v"
  shows "fst (extract_peer_valuation W U html) = [LLM_call Valuation_summary, LLM_call Peers]"
proof -
  from assms(1) obtain s1 where s1: "extract_section U html valuation_keywords 20000 = Some s1" "s1 \<noteq> []"
    by (rule locatedE)
  from assms(2) obtain s2 where s2: "extract_section U html peer_keywords 25000 = Some s2" "s2 \<noteq> []"
    by (rule locatedE)
  from assms(3) obtain s3 where s3: "extract_section U html per_keywords 15000 = Some s3" "s3 \<noteq> []"
    by (rule locatedE)
  have e: "extract_peer_valuation W U html
         = run_bind (valuation_pass W s1) (\<lambda>vs. peer_pass W vs s2 s3)"
    by (simp add: extract_peer_valuation_def s1 s2 s3)
  from r[unfolded e] obtain vs where
    "fst (run_bind (valuation_pass W s1) (\<lambda>vs. peer_pass W vs s2 s3))
       = fst (valuation_pass W s1) @ fst (peer_pass W vs s2 s3)"
    by (rule bind_ReturnsE)
  then show ?thesis
    unfolding e using s1(2) s2(2) by (simp add: fst_valuation_pass fst_peer_pass)
qed

lemma fst_bind_Returns:
  assumes "snd (run_bind m f) = Returns b"
    and "\<And>a. snd m = Returns a \<Longrightarrow> fst m = t"
    and "\<And>a. snd m = Returns a \<Longrightarrow> snd (f a) = Returns b \<Longrightarrow> fst (f a) = t'"
  shows "fst (run_bind m f) = t @ t'"
  using assms by (cases "snd m") (auto simp: snd_bind fst_bind)

lemma fst_extract_three:
  assumes loc: "sections_located U html"
    and r: "snd (extract_three W U html) = Returns res"
  shows "fst (extract_three W U html)
       = [LLM_call Lockup, LLM_call Business, LLM_call Valuation_summary, LLM_call Peers]"
proof -
  from loc have l: "located U html lockup_keywords 15000" "located U html business_keywords 20000"
    "located U html valuation_keywords 20000" "located U html peer_keywords 25000"
    "located U html per_keywords 15000"
    by (simp_all add: sections_located_def)
  have lk: "fst (extract_lockup_schedule W U html) = [LLM_call Lockup]"
    unfolding extract_lockup_schedule_def by (rule fst_extract_with_located[OF l(1)])
  have bs: "fst (extract_business_summary W U html) = [LLM_call Business]"
    unfolding extract_business_summary_def by (rule fst_extract_with_located[OF l(2)])
  note pv = fst_extract_peer_valuation[OF l(3,4,5)]
  have "fst (extract_three W U html)
      = [LLM_call Lockup] @ [] @ [LLM_call Business]
        @ [LLM_call Valuation_summary, LLM_call Peers] @ []"
    using r unfolding extract_three_def Let_def
    apply -
    apply (erule fst_bind_Returns)
     apply (rule lk)
    apply (erule fst_bind_Returns)
     apply simp
    apply (erule fst_bind_Returns)
     apply (rule bs)
    apply (erule fst_bind_Returns)
     apply (erule pv)
    apply simp
    done
  then show ?thesis by simp
qed

subsection \<open>Steps 2, 3 and 4\<close>

lemma snd_bind_Returns:
  "snd (run_bind m f) = Returns b \<longleftrightarrow> (\<exists>a. snd m = Returns a \<and> snd (f a) = Returns b)"
  by (cases "snd m") (simp_all add: snd_bind)

lemma fst_step_2 [simp]: "fst (step_2 W corp_code) = []"
  unfolding step_2_def Let_def
  by (intro silent_bind) (simp_all add: silent_bind split: option.splits)

lemma fst_step_3 [simp]: "fst (step_3 W company_name collected) = [Crawled company_name]"
  by (simp add: step_3_def fst_bind Let_def split: sum.splits option.splits pyval.splits)

lemma fst_integrate_filing [simp]: "fst (integrate_filing W has collected parsed) = []"
  unfolding integrate_filing_def Let_def
  by (simp add: silent_bind)

lemma fst_step_4:
  "fst (step_4 W U skip_filing rcept collected) =
     (case rcept of
        None \<Rightarrow> []
      | Some r \<Rightarrow>
          if skip_filing \<or> r = [] then []
          else (case download_document W r of
                  Inr (Some dir) \<Rightarrow>
                    fst (parse_full_filing W U dir (\<not> truthy (dict_get collected (cps ''financials''))))
                | _ \<Rightarrow> []))"
  by (simp add: step_4_def Let_def fst_bind split: option.splits sum.splits outcome.splits)

subsection \<open>Which events a filing can produce\<close>

lemma llm_bind:
  "list_all is_llm (fst m) \<Longrightarrow> (\<And>a. list_all is_llm (fst (f a)))
     \<Longrightarrow> list_all is_llm (fst (run_bind m f))"
  by (simp add: fst_bind split: outcome.splits)

lemma llm_extract_with: "list_all is_llm (fst (extract_with W U p kws m l html))"
  unfolding extract_with_def by (intro llm_bind) (simp_all add: llm_bind)

lemma llm_valuation_pass: "list_all is_llm (fst (valuation_pass W s))"
  unfolding valuation_pass_def by (simp add: llm_bind Let_def)

lemma llm_peer_pass: "list_all is_llm (fst (peer_pass W vs s2 s3))"
  unfolding peer_pass_def peer_call_def Let_def by (intro llm_bind) (simp_all add: llm_bind)

lemma llm_extract_peer_valuation: "list_all is_llm (fst (extract_peer_valuation W U html))"
  unfolding extract_peer_valuation_def
  by (intro llm_bind llm_valuation_pass llm_peer_pass) simp_all

lemma llm_extract_three: "list_all is_llm (fst (extract_three W U html))"
  unfolding extract_three_def Let_def extract_lockup_schedule_def extract_business_summary_def
  by (intro llm_bind llm_extract_with llm_extract_peer_valuation) simp_all

lemma not_invoked_extract_three:
  "Invoked_extract_financials \<notin> set (fst (extract_three W U html))"
  using llm_extract_three[of W U html] by (auto simp: list_all_iff)

lemma fst_extract_fallback:
  "fst (extract_fallback W U html res)
     = Invoked_extract_financials # fst (extract_financials_from_filing W U html)"
proof -
  have "fst (run_bind (extract_financials_from_filing W U html) (\<lambda>financials.
     if truthy financials then
       run_bind (len_check financials) (\<lambda>_.
       ret (AList.update (cps ''filing_financials'') financials res))
     else ret res)) = fst (extract_financials_from_filing W U html)"
    by (simp add: fst_bind silent_bind split: outcome.splits)
  then show ?thesis by (simp add: extract_fallback_def emit_bind)
qed

lemma invoked_parse_full_filing:
  "Invoked_extract_financials \<in> set (fst (parse_full_filing W U dir need))
     \<longleftrightarrow> need \<and> load_filing_html dir \<noteq> []
         \<and> (\<exists>r. snd (extract_three W U (load_filing_html dir)) = Returns r)"
proof (cases "load_filing_html dir = []")
  case True
  then show ?thesis by (simp add: parse_full_filing_def)
next
  case False
  then show ?thesis
    by (cases "snd (extract_three W U (load_filing_html dir))")
       (simp_all add: parse_full_filing_def Let_def fst_bind not_invoked_extract_three
          fst_extract_fallback)
qed

subsection \<open>Which keys a filing can set\<close>

lemma extract_three_keys:
  "snd (extract_three W U html) = Returns res \<Longrightarrow> map_of res (cps ''financials'') = None"
  by (auto simp: extract_three_def Let_def snd_bind_Returns update_conv')

lemma extract_fallback_keys:
  "snd (extract_fallback W U html res) = Returns res'
     \<Longrightarrow> map_of res' (cps ''financials'') = map_of res (cps ''financials'')"
  by (auto simp: extract_fallback_def snd_bind_Returns update_conv' split: if_splits)

lemma parse_full_filing_keys:
  assumes "snd (parse_full_filing W U dir need) = Returns res"
  shows "map_of res (cps ''financials'') = None"
proof (cases "load_filing_html dir = []")
  case True
  with assms show ?thesis by (simp add: parse_full_filing_def)
next
  case False
  with assms obtain a where a: "snd (extract_three W U (load_filing_html dir)) = Returns a"
    and b: "snd (if need then extract_fallback W U (load_filing_html dir) a else ret a) = Returns res"
    by (auto simp: parse_full_filing_def Let_def snd_bind_Returns)
  show ?thesis
  proof (cases need)
    case True
    with b have "snd (extract_fallback W U (load_filing_html dir) a) = Returns res" by simp
    from extract_fallback_keys[OF this] extract_three_keys[OF a] show ?thesis by simp
  next
    case False
    with b have "res = a" by simp
    with extract_three_keys[OF a] show ?thesis by simp
  qed
qed

lemma map_of_fold_update:
  "map_of parsed k = None
     \<Longrightarrow> map_of (fold (\<lambda>(k, v). AList.update k v) parsed c) k = map_of c k"
  by (induction parsed arbitrary: c) (auto simp: update_conv' split: if_splits)

lemma step_4_keeps_financials:
  assumes "truthy (dict_get c (cps ''financials''))"
    and "snd (step_4 W U skip rcept c) = Returns c'"
  shows "map_of c' (cps ''financials'') = map_of c (cps ''financials'')"
  using assms
  by (auto simp: step_4_def integrate_filing_def Let_def snd_bind_Returns map_of_fold_update
        dest!: parse_full_filing_keys split: option.splits if_splits sum.splits)

lemma not_invoked_step_4:
  assumes "truthy (dict_get c (cps ''financials''))"
  shows "Invoked_extract_financials \<notin> set (fst (step_4 W U skip rcept c))"
  using assms
  by (auto simp: fst_step_4 invoked_parse_full_filing split: option.splits sum.splits if_splits)

subsection \<open>Steps 5 and 6\<close>

lemma fst_step_5:
  "fst (step_5 W name skip c) = (if skip then [] else [LLM_call Analysis])"
  by (simp add: step_5_def generate_analysis_def fst_bind emit_bind silent_bind
        split: outcome.splits sum.splits)

lemma llm_step_6: "filter is_llm (fst (step_6 W name c rep)) = []"
  by (cases "save_report W name rep c"; cases "generate_excel W c name";
      cases "save_raw_data W c name")
     (simp_all add: step_6_def run_bind_def ret_def emit_def of_exn_def)

lemma step_5_returns:
  "analysis_llm W c name = Inr report \<Longrightarrow>
     step_5 W name False c
       = ([LLM_call Analysis],
          Returns (AList.update (cps ''analysis_report'') (PStr report) c, report))"
  by (simp add: step_5_def generate_analysis_def run_bind_def ret_def emit_def of_exn_def)

lemma step_5_skipped: "step_5 W name True c = ([], Returns (c, []))"
  by (simp add: step_5_def ret_def)

text \<open>Step 6 by the results of the three writers.\<close>

lemma step_6_writes:
  assumes "rep \<noteq> [] \<longrightarrow> save_report W name rep c = Inr ()"
    and "generate_excel W c name = Inr ()" "save_raw_data W c name = Inr ()"
  shows "step_6 W name c rep
       = ((if rep \<noteq> [] then [Saved_report] else []) @ [Saved_excel, Saved_json], Returns c)"
  using assms by (simp add: step_6_def run_bind_def ret_def emit_def of_exn_def)




text \<open>What the writers do on data that holds none of the tables.\<close>

lemma save_report_plain:
  assumes "\<not> truthy (dict_get data (cps ''financials''))"
    and "\<not> truthy (dict_get data (cps ''lockup_schedule''))"
    and "mkdir_reports W Report = Inr ()"
  shows "save_report W name rep data = write_report W name rep data"
  using assms by (simp add: save_report_def table_of_def bind_exn_def)


lemma generate_excel_plain:
  assumes "map_of data (cps ''offering'') = None" "map_of data (cps ''crawler_data'') = None"
    and "map_of data (cps ''lockup_schedule'') = None" "map_of data (cps ''financials'') = None"
    and "map_of data (cps ''valuation'') = None"
    and "map_of data (cps ''analysis_report'') = None
         \<or> (\<exists>r. map_of data (cps ''analysis_report'') = Some (PStr r))"
    and "mkdir_reports W Excel = Inr ()" "sheet_title W name = Inr ()"
    and "\<And>v. cell_value W v = Inr ()"
  shows "generate_excel W data name = save_workbook W name"
  using assms
  by (auto simp: generate_excel_def Let_def data_get_def bind_exn_def sheet_schedule_def
        sheet_offering_def sheet_demand_def sheet_lockup_def sheet_financials_def
        sheet_valuation_def sheet_opinion_def py_get_def py_first_def)

subsection \<open>The trace of a run\<close>

lemma fst_parse_full_filing_located:
  assumes ne: "load_filing_html dir \<noteq> []"
    and loc: "sections_located U (load_filing_html dir)"
    and r: "snd (parse_full_filing W U dir need) = Returns res"
  shows "fst (parse_full_filing W U dir need)
       = [LLM_call Lockup, LLM_call Business, LLM_call Valuation_summary, LLM_call Peers]
         @ (if need then [Invoked_extract_financials, LLM_call Financials] else [])"
proof -
  from ne r obtain a where a: "snd (extract_three W U (load_filing_html dir)) = Returns a"
    by (auto simp: parse_full_filing_def Let_def snd_bind_Returns)
  from loc have "located U (load_filing_html dir) financial_keywords 25000"
    by (simp add: sections_located_def)
  then have f: "fst (extract_financials_from_filing W U (load_filing_html dir))
      = [LLM_call Financials]"
    unfolding extract_financials_from_filing_def by (rule fst_extract_with_located)
  show ?thesis
    using ne by (simp add: parse_full_filing_def Let_def fst_bind a fst_extract_three[OF loc a]
        fst_extract_fallback f)
qed

lemma llm_step_5_6: "filter is_llm (fst (step_5_6 W name False c)) = [LLM_call Analysis]"
  by (simp add: step_5_6_def fst_bind fst_step_5 llm_step_6 split: outcome.splits prod.splits)

lemma steps_1_to_4_found:
  assumes "search_corp_code W name = Inr (Some code)"
  shows "steps_1_to_4 W U name sf =
         run_bind (step_2 W code) (\<lambda>(collected, rcept).
         run_bind (step_3 W name collected) (\<lambda>collected.
         run_bind (step_4 W U sf rcept collected) (\<lambda>collected.
         ret (Some collected))))"
  by (simp add: steps_1_to_4_def assms)

lemma steps_1_to_4_returns:
  assumes "search_corp_code W name = Inr (Some code)"
  shows "snd (steps_1_to_4 W U name sf) = Returns reached \<longleftrightarrow>
     (\<exists>c2 rcept c3 c4. snd (step_2 W code) = Returns (c2, rcept)
        \<and> snd (step_3 W name c2) = Returns c3
        \<and> snd (step_4 W U sf rcept c3) = Returns c4 \<and> reached = Some c4)"
  unfolding steps_1_to_4_found[OF assms] by (auto simp: snd_bind_Returns)

lemma fst_steps_1_to_4:
  assumes "search_corp_code W name = Inr (Some code)"
    and "snd (step_2 W code) = Returns (c2, rcept)"
    and "snd (step_3 W name c2) = Returns c3"
  shows "fst (steps_1_to_4 W U name sf) = Crawled name # fst (step_4 W U sf rcept c3)"
  unfolding steps_1_to_4_found[OF assms(1)]
  by (simp add: fst_bind snd_bind assms(2,3) split: outcome.splits)

lemma run_pipeline_returns:
  assumes "snd (run_pipeline W U name sf sa) = Returns res"
  obtains reached where "snd (steps_1_to_4 W U name sf) = Returns reached"
  using assms by (auto simp: run_pipeline_def snd_bind_Returns)

lemma llm_calls_complete_run:
  assumes corp: "search_corp_code W name = Inr (Some code)"
    and s2: "snd (step_2 W code) = Returns (c2, Some r)" and r: "r \<noteq> []"
    and s3: "snd (step_3 W name c2) = Returns c3"
    and dl: "download_document W r = Inr (Some dir)"
    and ne: "load_filing_html dir \<noteq> []"
    and loc: "sections_located U (load_filing_html dir)"
    and ret: "snd (run_pipeline W U name False False) = Returns res"
  shows "filter is_llm (fst (run_pipeline W U name False False))
       = map LLM_call
           ([Lockup, Business, Valuation_summary, Peers]
            @ (if truthy (dict_get c3 (cps ''financials'')) then [] else [Financials])
            @ [Analysis])"
proof -
  from ret obtain reached where "snd (steps_1_to_4 W U name False) = Returns reached"
    by (rule run_pipeline_returns)
  with steps_1_to_4_returns[OF corp] s2 s3 obtain c4 where
    s4: "snd (step_4 W U False (Some r) c3) = Returns c4" and reached: "reached = Some c4"
    and st: "snd (steps_1_to_4 W U name False) = Returns (Some c4)"
    by auto
  define need where "need = (\<not> truthy (dict_get c3 (cps ''financials'')))"
  from s4 r dl obtain parsed where p: "snd (parse_full_filing W U dir need) = Returns parsed"
    by (auto simp: step_4_def Let_def snd_bind_Returns need_def)
  have t4: "fst (step_4 W U False (Some r) c3) = fst (parse_full_filing W U dir need)"
    using r dl by (simp add: fst_step_4 need_def)
  have t: "fst (run_pipeline W U name False False)
      = Crawled name # fst (parse_full_filing W U dir need) @ fst (step_5_6 W name False c4)"
    by (simp add: run_pipeline_def fst_bind st fst_steps_1_to_4[OF corp s2 s3] t4 silent_bind
          split: outcome.splits)
  show ?thesis
    unfolding t fst_parse_full_filing_located[OF ne loc p]
    by (simp add: llm_step_5_6 need_def)
qed

lemma run_pipeline_step_6:
  assumes st: "steps_1_to_4 W U name skip_filing = (t, Returns (Some collected))"
  shows "analysis_llm W collected name = Inr report \<Longrightarrow>
           run_pipeline W U name skip_filing False
             = (t @ LLM_call Analysis
                  # fst (step_6 W name
                          (AList.update (cps ''analysis_report'') (PStr report) collected) report),
                map_outcome Some
                  (snd (step_6 W name
                          (AList.update (cps ''analysis_report'') (PStr report) collected) report)))"
    and "run_pipeline W U name skip_filing True
           = (t @ fst (step_6 W name collected []),
              map_outcome Some (snd (step_6 W name collected [])))"
proof -
  have b: "run_bind m (\<lambda>c. ret (Some c)) = (fst m, map_outcome Some (snd m))"
    for m :: "pydict run"
    by (cases m; cases "snd m") (auto simp: run_bind_def ret_def)
  show "run_pipeline W U name skip_filing True
           = (t @ fst (step_6 W name collected []),
              map_outcome Some (snd (step_6 W name collected [])))"
    by (simp add: run_pipeline_def st step_5_6_def step_5_skipped returns_bind b)
  assume "analysis_llm W collected name = Inr report"
  then show "run_pipeline W U name skip_filing False
             = (t @ LLM_call Analysis
                  # fst (step_6 W name
                          (AList.update (cps ''analysis_report'') (PStr report) collected) report),
                map_outcome Some
                  (snd (step_6 W name
                          (AList.update (cps ''analysis_report'') (PStr report) collected) report)))"
    by (simp add: run_pipeline_def st step_5_6_def step_5_returns returns_bind b)
qed

subsection \<open>A model that answers with nothing\<close>

lemma located_in_tags:
  assumes refl: "\<And>c. ci_match U c c"
    and html: "html = pre @ concat (map (\<lambda>k. title_tag (hd k)) kwss)"
    and mem: "kws \<in> set kwss" and ne: "kws \<noteq> []" and m: "0 < m"
  shows "located U html kws m"
proof -
  from mem obtain xs ys where s: "kwss = xs @ kws # ys" by (auto dest: split_list)
  from ne obtain kw rest where k: "kws = kw # rest" by (cases kws) auto
  have "html = (pre @ concat (map (\<lambda>k. title_tag (hd k)) xs)) @ title_tag kw
                @ concat (map (\<lambda>k. title_tag (hd k)) ys)"
    by (simp add: html s k)
  from title_located[OF refl this m, of rest] show ?thesis by (simp add: k)
qed

lemma answered_extract_with:
  assumes "located U html kws m" and "\<And>s. call_llm W p s = Inr a"
  shows "extract_with W U p kws m l html = ([LLM_call p], Returns (extract_json W a))"
  using extract_with_located[OF assms(1), of W p l] by (auto simp: assms(2))

lemma quiet_extract_peer_valuation:
  assumes "located U html valuation_keywords 20000" "located U html peer_keywords 25000"
    "located U html per_keywords 15000"
    and q: "\<And>p s. p \<noteq> Lockup \<Longrightarrow> call_llm W p s = Inr []" "extract_json W [] = PNone"
  shows "extract_peer_valuation W U html
       = ([LLM_call Valuation_summary, LLM_call Peers], Returns PNone)"
proof -
  from assms(1) obtain s1 where s1: "extract_section U html valuation_keywords 20000 = Some s1" "s1 \<noteq> []"
    by (rule locatedE)
  from assms(2) obtain s2 where s2: "extract_section U html peer_keywords 25000 = Some s2" "s2 \<noteq> []"
    by (rule locatedE)
  from assms(3) obtain s3 where s3: "extract_section U html per_keywords 15000 = Some s3" "s3 \<noteq> []"
    by (rule locatedE)
  have e: "extract_peer_valuation W U html
         = run_bind (valuation_pass W s1) (\<lambda>vs. peer_pass W vs s2 s3)"
    by (simp add: extract_peer_valuation_def s1 s2 s3)
  have v: "valuation_pass W s1 = ([LLM_call Valuation_summary], Returns (PDict []))"
    using s1(2) by (simp add: valuation_pass_def q run_bind_def ret_def emit_def of_exn_def)
  have c: "combined_sections s2 s3 \<noteq> []" using s2(2) by (simp add: combined_sections_ne)
  have p: "peer_pass W (PDict []) s2 s3 = ([LLM_call Peers], Returns PNone)"
    using s2(2) c
    by (simp add: peer_pass_def peer_call_def read_peer_data_def finish_valuation_def q
          run_bind_def ret_def emit_def of_exn_def)
  show ?thesis unfolding e by (simp add: v p run_bind_def)
qed

text \<open>
  A filing parsed with a model that gives \<open>v\<close> for the lock-up schedule and nothing for
  the other questions.
\<close>

lemma quiet_parse_full_filing:
  assumes ne: "load_filing_html dir \<noteq> []"
    and loc: "sections_located U (load_filing_html dir)"
    and lk: "\<And>s. call_llm W Lockup s = Inr a" "extract_json W a = v" "\<not> is_number v"
    and q: "\<And>p s. p \<noteq> Lockup \<Longrightarrow> call_llm W p s = Inr []" "extract_json W [] = PNone"
  shows "parse_full_filing W U dir need
       = ([LLM_call Lockup, LLM_call Business, LLM_call Valuation_summary, LLM_call Peers]
          @ (if need then [Invoked_extract_financials, LLM_call Financials] else []),
          Returns (if truthy v then [(cps ''lockup_schedule'', v)] else []))"
proof -
  from loc have l: "located U (load_filing_html dir) lockup_keywords 15000"
    "located U (load_filing_html dir) business_keywords 20000"
    "located U (load_filing_html dir) valuation_keywords 20000"
    "located U (load_filing_html dir) peer_keywords 25000"
    "located U (load_filing_html dir) per_keywords 15000"
    "located U (load_filing_html dir) financial_keywords 25000"
    by (simp_all add: sections_located_def)
  have b: "call_llm W Business s = Inr []" "call_llm W Financials s = Inr []" for s
    by (simp_all add: q)
  define res where "res = (if truthy v then [(cps ''lockup_schedule'', v)] else [])"
  have three: "extract_three W U (load_filing_html dir)
      = ([LLM_call Lockup, LLM_call Business, LLM_call Valuation_summary, LLM_call Peers],
         Returns res)"
    by (simp add: extract_three_def extract_lockup_schedule_def extract_business_summary_def
          answered_extract_with[OF l(1) lk(1)] answered_extract_with[OF l(2) b(1)]
          quiet_extract_peer_valuation[OF l(3,4,5) q] lk(2,3) q(2) len_check_def
          run_bind_def ret_def res_def)
  have fb: "extract_fallback W U (load_filing_html dir) res
      = ([Invoked_extract_financials, LLM_call Financials], Returns res)"
    by (simp add: extract_fallback_def extract_financials_from_filing_def
          answered_extract_with[OF l(6) b(2)] q(2) run_bind_def ret_def emit_def)
  show ?thesis
    using ne by (simp add: parse_full_filing_def three fb run_bind_def ret_def res_def[symmetric])
qed

text \<open>Steps 2 and 3 read the world through these fields only.\<close>

lemma step_2_fields:
  assumes "get_company_info W = get_company_info W'" "search_filings W = search_filings W'"
    "equity_offering W = equity_offering W'" "financial_summary W = financial_summary W'"
  shows "step_2 W code = step_2 W' code"
  unfolding step_2_def assms by (rule refl)

lemma step_3_fields:
  assumes "search_38 W = search_38 W'"
  shows "step_3 W name c = step_3 W' name c"
  unfolding step_3_def assms by (rule refl)

text \<open>Step 6 on data that holds none of the tables, when the file system and the library return.\<close>

lemma step_6_plain:
  assumes io: "\<And>w. mkdir_reports W w = Inr ()" "\<And>n r d. write_report W n r d = Inr ()"
      "\<And>n. sheet_title W n = Inr ()" "\<And>v. cell_value W v = Inr ()"
      "\<And>n. save_workbook W n = Inr ()" "\<And>n d. write_json W n d = Inr ()"
    and plain: "map_of data (cps ''offering'') = None" "map_of data (cps ''crawler_data'') = None"
      "map_of data (cps ''lockup_schedule'') = None" "map_of data (cps ''financials'') = None"
      "map_of data (cps ''valuation'') = None"
      "map_of data (cps ''analysis_report'') = None
         \<or> (\<exists>r. map_of data (cps ''analysis_report'') = Some (PStr r))"
  shows "save_report W name rep data = Inr ()" "generate_excel W data name = Inr ()"
    "save_raw_data W data name = Inr ()"
    "step_6 W name data rep
       = ((if rep \<noteq> [] then [Saved_report] else []) @ [Saved_excel, Saved_json], Returns data)"
proof -
  show r: "save_report W name rep data = Inr ()"
    by (simp add: save_report_plain dict_get_def plain io)
  show x: "generate_excel W data name = Inr ()"
    using generate_excel_plain[OF plain io(1) io(3) io(4)] by (simp add: io)
  show j: "save_raw_data W data name = Inr ()"
    by (simp add: save_raw_data_def bind_exn_def io)
  from r x j show "step_6 W name data rep
       = ((if rep \<noteq> [] then [Saved_report] else []) @ [Saved_excel, Saved_json], Returns data)"
    by (simp add: step_6_writes)
qed

subsection \<open>The example world\<close>

lemma load_single_xml:
  "load_filing_html [\<lparr>fname = cps ''filing.xml'', read_utf8 = Inr content, read_euckr = e\<rparr>]
     = file_chunk (cps ''filing.xml'') content"
  by (simp add: load_filing_html_def glob_ext_def suffix_to_prefix cps_def)

lemma demo_html: "load_filing_html demo_dir = file_chunk (cps ''filing.xml'') demo_content"
  unfolding demo_dir_def by (rule load_single_xml)

lemma demo_html_ne: "load_filing_html demo_dir \<noteq> []"
  by (simp add: demo_html file_chunk_def)

lemma demo_step_2:
  "step_2 demo_world (cps ''00123456'')
     = ([], Returns ([(cps ''_invest_doc_rcept_no'', PNone)], Some (cps ''20250101000001'')))"
  by (simp add: step_2_def demo_world_def choose_rcept_no_def find_invest_doc_def py_in_def
        kw_registration_def kw_issue_result_def kw_terms_fixed_def kw_amended_def
        kw_prospectus_def kw_attachment_def run_bind_def ret_def of_exn_def)

lemma demo_step_3:
  "step_3 demo_world name c = ([Crawled name], Returns c)"
  by (simp add: step_3_def demo_world_def run_bind_def emit_def ret_def)

lemma demo_sections_located: "sections_located ascii_unicode (load_filing_html demo_dir)"
proof -
  have refl: "\<And>c. ci_match ascii_unicode c c" by (simp add: ascii_unicode_def)
  have html: "load_filing_html demo_dir
      = ((10 # cps ''<!-- FILE: '') @ cps ''filing.xml'' @ cps '' -->'' @ [10])
        @ concat (map (\<lambda>k. title_tag (hd k))
            [lockup_keywords, business_keywords, valuation_keywords, peer_keywords,
             per_keywords, financial_keywords])"
    unfolding demo_html file_chunk_def demo_content_def by (simp only: append_assoc)
  note l = located_in_tags[OF refl html]
  have "located ascii_unicode (load_filing_html demo_dir) lockup_keywords 15000"
    by (rule l) (simp_all add: lockup_keywords_def)
  moreover have "located ascii_unicode (load_filing_html demo_dir) business_keywords 20000"
    by (rule l) (simp_all add: business_keywords_def)
  moreover have "located ascii_unicode (load_filing_html demo_dir) valuation_keywords 20000"
    by (rule l) (simp_all add: valuation_keywords_def)
  moreover have "located ascii_unicode (load_filing_html demo_dir) peer_keywords 25000"
    by (rule l) (simp_all add: peer_keywords_def)
  moreover have "located ascii_unicode (load_filing_html demo_dir) per_keywords 15000"
    by (rule l) (simp_all add: per_keywords_def)
  moreover have "located ascii_unicode (load_filing_html demo_dir) financial_keywords 25000"
    by (rule l) (simp_all add: financial_keywords_def)
  ultimately show ?thesis unfolding sections_located_def by blast
qed

lemma demo_io:
  "mkdir_reports demo_world w = Inr ()" "write_report demo_world n r d = Inr ()"
  "sheet_title demo_world n = Inr ()" "cell_value demo_world v = Inr ()"
  "save_workbook demo_world n = Inr ()" "write_json demo_world n d = Inr ()"
  by (simp_all add: demo_world_def)

text \<open>
  Step 4 in a world that downloads the example filing, with a model that gives \<open>v\<close> for the
  lock-up schedule and nothing for the other questions.
\<close>

lemma example_step_4:
  assumes d: "download_document W r = Inr (Some demo_dir)" and r: "r \<noteq> []"
    and lk: "\<And>s. call_llm W Lockup s = Inr a" "extract_json W a = v" "\<not> is_number v"
    and q: "\<And>p s. p \<noteq> Lockup \<Longrightarrow> call_llm W p s = Inr []" "extract_json W [] = PNone"
    and c: "map_of c (cps ''filing_financials'') = None"
  shows "step_4 W ascii_unicode False (Some r) c
   = ([LLM_call Lockup, LLM_call Business, LLM_call Valuation_summary, LLM_call Peers]
      @ (if truthy (dict_get c (cps ''financials'')) then []
         else [Invoked_extract_financials, LLM_call Financials]),
      Returns (if truthy v then AList.update (cps ''lockup_schedule'') v c else c))"
  using r c
  by (simp add: step_4_def d integrate_filing_def
        quiet_parse_full_filing[OF demo_html_ne demo_sections_located lk q]
        run_bind_def ret_def of_exn_def update_conv')

lemma demo_step_4:
  assumes "r \<noteq> []" "map_of c (cps ''filing_financials'') = None"
  shows "step_4 demo_world ascii_unicode False (Some r) c
   = ([LLM_call Lockup, LLM_call Business, LLM_call Valuation_summary, LLM_call Peers]
      @ (if truthy (dict_get c (cps ''financials'')) then []
         else [Invoked_extract_financials, LLM_call Financials]),
      Returns c)"
proof -
  have "step_4 demo_world ascii_unicode False (Some r) c
   = ([LLM_call Lockup, LLM_call Business, LLM_call Valuation_summary, LLM_call Peers]
      @ (if truthy (dict_get c (cps ''financials'')) then []
         else [Invoked_extract_financials, LLM_call Financials]),
      Returns (if truthy PNone then AList.update (cps ''lockup_schedule'') PNone c else c))"
    by (rule example_step_4[where a = "[]"]) (simp_all add: demo_world_def assms)
  then show ?thesis by simp
qed

lemma demo_quiet:
  "call_llm demo_world Lockup s = Inr []" "extract_json demo_world [] = PNone"
  "\<not> is_number PNone" "p \<noteq> Lockup \<Longrightarrow> call_llm demo_world p s = Inr []"
  "extract_json demo_world [] = PNone"
  by (simp_all add: demo_world_def)

lemma demo_steps_1_to_4:
  "steps_1_to_4 demo_world ascii_unicode name False
   = ([Crawled name, LLM_call Lockup, LLM_call Business, LLM_call Valuation_summary,
       LLM_call Peers, Invoked_extract_financials, LLM_call Financials],
      Returns (Some [(cps ''_invest_doc_rcept_no'', PNone)]))"
proof -
  have c: "search_corp_code demo_world name = Inr (Some (cps ''00123456''))"
    by (simp add: demo_world_def)
  show ?thesis
    unfolding steps_1_to_4_found[OF c]
    by (simp add: demo_step_2 demo_step_3 demo_step_4 dict_get_def run_bind_def ret_def)
qed

lemma demo_run:
  "run_pipeline demo_world ascii_unicode (cps ''demo'') False False
   = ([Crawled (cps ''demo''), LLM_call Lockup, LLM_call Business, LLM_call Valuation_summary,
       LLM_call Peers, Invoked_extract_financials, LLM_call Financials, LLM_call Analysis,
       Saved_report, Saved_excel, Saved_json],
      Returns (Some [(cps ''_invest_doc_rcept_no'', PNone),
                     (cps ''analysis_report'', PStr (cps ''report''))]))"
proof -
  have a: "analysis_llm demo_world [(cps ''_invest_doc_rcept_no'', PNone)] (cps ''demo'')
      = Inr (cps ''report'')"
    by (simp add: demo_world_def)
  have s6: "step_6 demo_world (cps ''demo'')
        [(cps ''_invest_doc_rcept_no'', PNone), (cps ''analysis_report'', PStr (cps ''report''))]
        (cps ''report'')
      = ([Saved_report, Saved_excel, Saved_json],
         Returns [(cps ''_invest_doc_rcept_no'', PNone),
                  (cps ''analysis_report'', PStr (cps ''report''))])"
    using step_6_plain(4)[OF demo_io, of
        "[(cps ''_invest_doc_rcept_no'', PNone), (cps ''analysis_report'', PStr (cps ''report''))]"
        "cps ''demo''" "cps ''report''"]
    by simp
  from run_pipeline_step_6(1)[OF demo_steps_1_to_4[of "cps ''demo''"] a]
  show ?thesis by (simp add: s6)
qed

text \<open>The example world with a filing without files.\<close>

lemma empty_filing_run:
  "run_pipeline empty_filing_world ascii_unicode (cps ''demo'') False False
   = ([Crawled (cps ''demo''), LLM_call Analysis, Saved_report, Saved_excel, Saved_json],
      Returns (Some [(cps ''_invest_doc_rcept_no'', PNone),
                     (cps ''analysis_report'', PStr (cps ''report''))]))"
proof -
  have c: "search_corp_code empty_filing_world (cps ''demo'') = Inr (Some (cps ''00123456''))"
    by (simp add: empty_filing_world_def demo_world_def)
  have s2: "step_2 empty_filing_world (cps ''00123456'')
     = ([], Returns ([(cps ''_invest_doc_rcept_no'', PNone)], Some (cps ''20250101000001'')))"
    unfolding demo_step_2[symmetric]
    by (rule step_2_fields) (simp_all add: empty_filing_world_def)
  have s3: "step_3 empty_filing_world (cps ''demo'') c0 = ([Crawled (cps ''demo'')], Returns c0)"
    for c0
    unfolding demo_step_3[symmetric]
    by (rule step_3_fields) (simp add: empty_filing_world_def)
  have d: "download_document empty_filing_world r = Inr (Some [])" for r
    by (simp add: empty_filing_world_def)
  have l: "load_filing_html [] = []"
    by (simp add: load_filing_html_def glob_ext_def)
  have s4: "step_4 empty_filing_world ascii_unicode False (Some (cps ''20250101000001''))
       [(cps ''_invest_doc_rcept_no'', PNone)]
     = ([], Returns [(cps ''_invest_doc_rcept_no'', PNone)])"
    by (simp add: step_4_def d integrate_filing_def parse_full_filing_empty[OF l] dict_get_def
          run_bind_def ret_def of_exn_def)
  have st: "steps_1_to_4 empty_filing_world ascii_unicode (cps ''demo'') False
      = ([Crawled (cps ''demo'')], Returns (Some [(cps ''_invest_doc_rcept_no'', PNone)]))"
    unfolding steps_1_to_4_found[OF c] by (simp add: s2 s3 s4 run_bind_def ret_def)
  have io: "\<And>w. mkdir_reports empty_filing_world w = Inr ()"
    "\<And>n r d. write_report empty_filing_world n r d = Inr ()"
    "\<And>n. sheet_title empty_filing_world n = Inr ()"
    "\<And>v. cell_value empty_filing_world v = Inr ()"
    "\<And>n. save_workbook empty_filing_world n = Inr ()"
    "\<And>n d. write_json empty_filing_world n d = Inr ()"
    by (simp_all add: empty_filing_world_def demo_world_def)
  have a: "analysis_llm empty_filing_world [(cps ''_invest_doc_rcept_no'', PNone)] (cps ''demo'')
      = Inr (cps ''report'')"
    by (simp add: empty_filing_world_def demo_world_def)
  have s6: "step_6 empty_filing_world (cps ''demo'')
        [(cps ''_invest_doc_rcept_no'', PNone), (cps ''analysis_report'', PStr (cps ''report''))]
        (cps ''report'')
      = ([Saved_report, Saved_excel, Saved_json],
         Returns [(cps ''_invest_doc_rcept_no'', PNone),
                  (cps ''analysis_report'', PStr (cps ''report''))])"
    using step_6_plain(4)[OF io, of
        "[(cps ''_invest_doc_rcept_no'', PNone), (cps ''analysis_report'', PStr (cps ''report''))]"
        "cps ''demo''" "cps ''report''"]
    by simp
  from run_pipeline_step_6(1)[OF st a] show ?thesis by (simp add: s6)
qed



subsection \<open>The claims about the pipeline\<close>




text \<open>
  Claim C2, as amended. A complete run, with neither skip flag, a filing that is found and
  downloaded, every section located, and which returns, calls the model six times when DART
  gave no financial statements: for the lock-up schedule, the business summary, the valuation
  summary and the peer table (the two passes of \<open>extract_peer_valuation\<close>), the financial
  statements, and the analysis report of \<open>generate_analysis\<close>; and five times, without the
  call for the financial statements, when DART gave them.
\<close>

theorem llm_calls_of_complete_run:
  assumes "search_corp_code W name = Inr (Some code)"
    and "snd (step_2 W code) = Returns (c2, Some r)" and "r \<noteq> []"
    and "snd (step_3 W name c2) = Returns c3"
    and "download_document W r = Inr (Some dir)"
    and "load_filing_html dir \<noteq> []"
    and "sections_located U (load_filing_html dir)"
    and "snd (run_pipeline W U name False False) = Returns res"
  shows "filter is_llm (fst (run_pipeline W U name False False))
       = map LLM_call
           ([Lockup, Business, Valuation_summary, Peers]
            @ (if truthy (dict_get c3 (cps ''financials'')) then [] else [Financials])
            @ [Analysis])"
  using assms by (rule llm_calls_complete_run)

theorem llm_calls_of_complete_run_witness:
  "search_corp_code demo_world (cps ''demo'') = Inr (Some (cps ''00123456''))
   \<and> snd (step_2 demo_world (cps ''00123456''))
       = Returns ([(cps ''_invest_doc_rcept_no'', PNone)], Some (cps ''20250101000001''))
   \<and> cps ''20250101000001'' \<noteq> []
   \<and> snd (step_3 demo_world (cps ''demo'') [(cps ''_invest_doc_rcept_no'', PNone)])
       = Returns [(cps ''_invest_doc_rcept_no'', PNone)]
   \<and> download_document demo_world (cps ''20250101000001'') = Inr (Some demo_dir)
   \<and> load_filing_html demo_dir \<noteq> []
   \<and> sections_located ascii_unicode (load_filing_html demo_dir)
   \<and> snd (run_pipeline demo_world ascii_unicode (cps ''demo'') False False)
       = Returns (Some [(cps ''_invest_doc_rcept_no'', PNone),
                        (cps ''analysis_report'', PStr (cps ''report''))])
   \<and> filter is_llm (fst (run_pipeline demo_world ascii_unicode (cps ''demo'') False False))
       = [LLM_call Lockup, LLM_call Business, LLM_call Valuation_summary, LLM_call Peers,
          LLM_call Financials, LLM_call Analysis]"
proof -
  have c: "search_corp_code demo_world (cps ''demo'') = Inr (Some (cps ''00123456''))"
    by (simp add: demo_world_def)
  have s2: "snd (step_2 demo_world (cps ''00123456''))
       = Returns ([(cps ''_invest_doc_rcept_no'', PNone)], Some (cps ''20250101000001''))"
    by (simp add: demo_step_2)
  have r: "cps ''20250101000001'' \<noteq> []" by simp
  have s3: "snd (step_3 demo_world (cps ''demo'') [(cps ''_invest_doc_rcept_no'', PNone)])
       = Returns [(cps ''_invest_doc_rcept_no'', PNone)]"
    by (simp add: demo_step_3)
  have d: "download_document demo_world (cps ''20250101000001'') = Inr (Some demo_dir)"
    by (simp add: demo_world_def)
  have ret: "snd (run_pipeline demo_world ascii_unicode (cps ''demo'') False False)
       = Returns (Some [(cps ''_invest_doc_rcept_no'', PNone),
                        (cps ''analysis_report'', PStr (cps ''report''))])"
    by (simp add: demo_run)
  have h: "\<not> truthy (dict_get [(cps ''_invest_doc_rcept_no'', PNone)] (cps ''financials''))"
    by (simp add: dict_get_def)
  from llm_calls_of_complete_run[OF c s2 r s3 d demo_html_ne demo_sections_located ret] h
  have "filter is_llm (fst (run_pipeline demo_world ascii_unicode (cps ''demo'') False False))
       = [LLM_call Lockup, LLM_call Business, LLM_call Valuation_summary, LLM_call Peers,
          LLM_call Financials, LLM_call Analysis]"
    by simp
  with c s2 r s3 d demo_html_ne demo_sections_located ret show ?thesis by blast
qed

theorem llm_calls_counterexample:
  "sections_located ascii_unicode (load_filing_html demo_dir)
   \<and> run_pipeline demo_world ascii_unicode (cps ''demo'') False False
       = ([Crawled (cps ''demo''), LLM_call Lockup, LLM_call Business, LLM_call Valuation_summary,
           LLM_call Peers, Invoked_extract_financials, LLM_call Financials, LLM_call Analysis,
           Saved_report, Saved_excel, Saved_json],
          Returns (Some [(cps ''_invest_doc_rcept_no'', PNone),
                         (cps ''analysis_report'', PStr (cps ''report''))]))
   \<and> length (filter is_llm
         (fst (run_pipeline demo_world ascii_unicode (cps ''demo'') False False))) = 6
   \<and> length (filter is_llm
         (fst (run_pipeline demo_world ascii_unicode (cps ''demo'') False False))) \<noteq> 4"
  by (simp add: demo_sections_located demo_run)

text \<open>
  Claim C5. When \<open>search_by_name\<close> raises, whatever the exception, step 3 makes that one
  call of the crawler and no other, and returns the data collected so far unchanged; and the
  whole run, its trace and its outcome, is the run of the same world with a crawler that
  returns \<open>None\<close>: every later step is executed as if the crawler had found nothing.
\<close>

theorem crawl_failure_is_absence:
  "search_38 W company_name = Inl e \<longrightarrow>
     step_3 W company_name collected = ([Crawled company_name], Returns collected) \<and>
     run_pipeline W U company_name skip_filing skip_analysis
       = run_pipeline (W\<lparr>search_38 := \<lambda>_. Inr None\<rparr>) U company_name skip_filing skip_analysis"
  using step_3_raises run_pipeline_crawl_raises by blast

theorem crawl_failure_is_absence_witness:
  "search_38 crawl_failure_world (cps ''demo'') = Inl (Failure 38)
   \<and> step_3 crawl_failure_world (cps ''demo'') [(cps ''_invest_doc_rcept_no'', PNone)]
       = ([Crawled (cps ''demo'')], Returns [(cps ''_invest_doc_rcept_no'', PNone)])
   \<and> run_pipeline crawl_failure_world ascii_unicode (cps ''demo'') False False
       = run_pipeline (crawl_failure_world\<lparr>search_38 := \<lambda>_. Inr None\<rparr>) ascii_unicode
           (cps ''demo'') False False"
proof -
  have f: "search_38 crawl_failure_world (cps ''demo'') = Inl (Failure 38)"
    by (simp add: crawl_failure_world_def)
  from crawl_failure_is_absence[of crawl_failure_world "cps ''demo''" "Failure 38"
      "[(cps ''_invest_doc_rcept_no'', PNone)]" ascii_unicode False False] f
  show ?thesis by blast
qed

text \<open>
  Claim C6, as amended. \<open>parse_full_filing\<close> invokes \<open>extract_financials_from_filing\<close> if
  and only if \<open>need_financials\<close> is set, the filing has text, and the three extractions
  before it return; step 4 invokes it only if the data collected from DART has no financial
  statements; and when DART financials exist, step 4 leaves \<open>collected['financials']\<close>
  as it was.
\<close>

theorem fallback_financials:
  "(Invoked_extract_financials \<in> set (fst (parse_full_filing W U dir need_financials))
      \<longleftrightarrow> need_financials \<and> load_filing_html dir \<noteq> []
          \<and> (\<exists>result. snd (extract_three W U (load_filing_html dir)) = Returns result))
   \<and> (Invoked_extract_financials \<in> set (fst (step_4 W U skip_filing rcept collected))
        \<longrightarrow> \<not> truthy (dict_get collected (cps ''financials'')))
   \<and> (truthy (dict_get collected (cps ''financials''))
        \<and> snd (step_4 W U skip_filing rcept collected) = Returns collected'
        \<longrightarrow> map_of collected' (cps ''financials'') = map_of collected (cps ''financials''))"
  using invoked_parse_full_filing[of W U dir need_financials]
    not_invoked_step_4[of collected W U skip_filing rcept]
    step_4_keeps_financials[of collected W U skip_filing rcept collected']
  by blast

theorem fallback_financials_witness:
  "load_filing_html demo_dir \<noteq> []
   \<and> Invoked_extract_financials
       \<in> set (fst (parse_full_filing demo_world ascii_unicode demo_dir True))
   \<and> Invoked_extract_financials
       \<in> set (fst (step_4 demo_world ascii_unicode False (Some (cps ''1'')) []))
   \<and> \<not> truthy (dict_get [] (cps ''financials''))
   \<and> truthy (dict_get [(cps ''financials'', PList [PDict [(cps ''year'', PStr (cps ''2024''))]])]
         (cps ''financials''))
   \<and> snd (step_4 demo_world ascii_unicode False (Some (cps ''1''))
         [(cps ''financials'', PList [PDict [(cps ''year'', PStr (cps ''2024''))]])])
       = Returns [(cps ''financials'', PList [PDict [(cps ''year'', PStr (cps ''2024''))]])]
   \<and> Invoked_extract_financials
       \<notin> set (fst (step_4 demo_world ascii_unicode False (Some (cps ''1''))
           [(cps ''financials'', PList [PDict [(cps ''year'', PStr (cps ''2024''))]])]))"
proof -
  define F where "F = [(cps ''financials'', PList [PDict [(cps ''year'', PStr (cps ''2024''))]])]"
  have r: "cps ''1'' \<noteq> []" by simp
  have three: "\<exists>result. snd (extract_three demo_world ascii_unicode (load_filing_html demo_dir))
      = Returns result"
  proof -
    have "snd (parse_full_filing demo_world ascii_unicode demo_dir False) = Returns []"
      by (simp add: quiet_parse_full_filing[OF demo_html_ne demo_sections_located demo_quiet])
    then show ?thesis
      using demo_html_ne by (auto simp: parse_full_filing_def Let_def snd_bind_Returns)
  qed
  have e: "step_4 demo_world ascii_unicode False (Some (cps ''1'')) []
      = ([LLM_call Lockup, LLM_call Business, LLM_call Valuation_summary, LLM_call Peers,
          Invoked_extract_financials, LLM_call Financials], Returns [])"
    using demo_step_4[OF r, of "[]"] by (simp add: dict_get_def)
  have t: "truthy (dict_get F (cps ''financials''))" by (simp add: F_def dict_get_def)
  have f: "step_4 demo_world ascii_unicode False (Some (cps ''1'')) F
      = ([LLM_call Lockup, LLM_call Business, LLM_call Valuation_summary, LLM_call Peers],
         Returns F)"
    using demo_step_4[OF r, of F] t by (simp add: F_def)
  note a = fallback_financials[of demo_world ascii_unicode demo_dir True False
      "Some (cps ''1'')" "[]" "[]"]
  note b = fallback_financials[of demo_world ascii_unicode demo_dir True False
      "Some (cps ''1'')" F F]
  from a three demo_html_ne have 1: "Invoked_extract_financials
       \<in> set (fst (parse_full_filing demo_world ascii_unicode demo_dir True))" by blast
  have 2: "Invoked_extract_financials
       \<in> set (fst (step_4 demo_world ascii_unicode False (Some (cps ''1'')) []))"
    by (simp add: e)
  from a 2 have 3: "\<not> truthy (dict_get [] (cps ''financials''))" by blast
  from b t have 4: "Invoked_extract_financials
       \<notin> set (fst (step_4 demo_world ascii_unicode False (Some (cps ''1'')) F))" by blast
  have 5: "snd (step_4 demo_world ascii_unicode False (Some (cps ''1'')) F) = Returns F"
    by (simp add: f)
  from demo_html_ne 1 2 3 t 5 4 show ?thesis unfolding F_def by blast
qed

theorem fallback_financials_counterexample:
  "financial_summary empty_filing_world (cps ''00123456'') = Inr []
   \<and> download_document empty_filing_world (cps ''20250101000001'') = Inr (Some [])
   \<and> parse_full_filing empty_filing_world ascii_unicode [] True = ([], Returns [])
   \<and> run_pipeline empty_filing_world ascii_unicode (cps ''demo'') False False
       = ([Crawled (cps ''demo''), LLM_call Analysis, Saved_report, Saved_excel, Saved_json],
          Returns (Some [(cps ''_invest_doc_rcept_no'', PNone),
                         (cps ''analysis_report'', PStr (cps ''report''))]))
   \<and> Invoked_extract_financials
       \<notin> set (fst (run_pipeline empty_filing_world ascii_unicode (cps ''demo'') False False))"
proof -
  have l: "load_filing_html [] = []"
    by (simp add: load_filing_html_def glob_ext_def)
  have "financial_summary empty_filing_world (cps ''00123456'') = Inr []"
    "download_document empty_filing_world (cps ''20250101000001'') = Inr (Some [])"
    by (simp_all add: empty_filing_world_def demo_world_def)
  then show ?thesis
    by (simp add: parse_full_filing_empty[OF l] empty_filing_run)
qed


end
